theory Spec2Isabelle
  imports Main "HOL-Library.Sublist"
begin

section \<open>Python values used by \<open>src/objects/job.py\<close>\<close>

text \<open>
  The exceptions that the modelled code can raise.  \<open>SystemExit n\<close> is what \<open>exit(n)\<close>
  raises; the others are the built-in exceptions of the same name.  The four about files
  are what \<open>os.mkdir\<close> and \<open>open(path, "xb")\<close> raise for the error numbers \<open>EEXIST\<close>,
  \<open>ENOENT\<close>, \<open>ENOTDIR\<close> and \<open>EISDIR\<close>.
\<close>

datatype error =
    IndexError
  | AttributeError
  | FileExistsError
  | FileNotFoundError
  | NotADirectoryError
  | IsADirectoryError
  | JSONDecodeError
  | SystemExit int

text \<open>
  \<open>s.split(c)\<close> for a one-character separator: the result is never empty, and an
  empty segment is kept wherever two separators meet or the string starts or ends with one.
\<close>

fun split :: "char \<Rightarrow> string \<Rightarrow> string list" where
  "split c [] = [[]]"
| "split c (x # xs) =
     (if x = c then [] # split c xs
      else (case split c xs of
              [] \<Rightarrow> [[x]]
            | w # ws \<Rightarrow> (x # w) # ws))"

text \<open>
  \<open>xs[i]\<close> with Python's indexing: a negative index counts from the end, and an index
  outside the list raises \<open>IndexError\<close>.
\<close>

definition py_index :: "'a list \<Rightarrow> int \<Rightarrow> error + 'a" where
  "py_index xs i =
     (if 0 \<le> i \<and> i < int (length xs) then Inr (xs ! nat i)
      else if i < 0 \<and> - int (length xs) \<le> i then Inr (xs ! nat (int (length xs) + i))
      else Inl IndexError)"

text \<open>\<open>a or b\<close> on optional strings: \<open>None\<close> and the empty string are falsy.\<close>

definition truthy :: "string option \<Rightarrow> bool" where
  "truthy v = (case v of None \<Rightarrow> False | Some s \<Rightarrow> s \<noteq> [])"

definition py_or :: "string option \<Rightarrow> string option \<Rightarrow> string option" where
  "py_or a b = (if truthy a then a else b)"

text \<open>An optional string inside an f-string: \<open>None\<close> is printed as the word \<open>None\<close>.\<close>

definition fmt :: "string option \<Rightarrow> string" where
  "fmt v = (case v of None \<Rightarrow> ''None'' | Some s \<Rightarrow> s)"

text \<open>\<open>s.replace(" ", "_")\<close>.\<close>

definition replace_space :: "string \<Rightarrow> string" where
  "replace_space s = map (\<lambda>c. if c = CHR '' '' then CHR ''_'' else c) s"

text \<open>\<open>str(n)\<close> for a non-negative integer: its decimal digits.\<close>

definition digit_char :: "nat \<Rightarrow> char" where
  "digit_char d = ''0123456789'' ! d"

fun str :: "nat \<Rightarrow> string" where
  "str n = (if n < 10 then [digit_char n] else str (n div 10) @ [digit_char (n mod 10)])"

declare str.simps [simp del]

text \<open>Decimal digits are read back by \<open>decimal_val\<close>, so \<open>str\<close> is injective.\<close>

definition digit_val :: "char \<Rightarrow> nat" where
  "digit_val c = of_char c - 48"

lemma digit_val_digit_char: "d < 10 \<Longrightarrow> digit_val (digit_char d) = d"
proof -
  assume "d < 10"
  then have "d \<in> {0, 1, 2, 3, 4, 5, 6, 7, 8, 9}" by auto
  then show ?thesis
    by (auto simp: digit_val_def digit_char_def)
qed

definition decimal_val :: "string \<Rightarrow> nat" where
  "decimal_val s = foldl (\<lambda>a c. 10 * a + digit_val c) 0 s"

lemma decimal_val_str: "decimal_val (str n) = n"
proof (induction n rule: str.induct)
  case (1 n)
  show ?case
  proof (cases "n < 10")
    case True
    then show ?thesis
      by (subst str.simps) (simp add: decimal_val_def digit_val_digit_char)
  next
    case False
    then have "decimal_val (str (n div 10)) = n div 10" using 1 by simp
    then show ?thesis using False
      by (subst str.simps) (simp add: decimal_val_def digit_val_digit_char)
  qed
qed

lemma str_inj: "str m = str n \<Longrightarrow> m = n"
  by (metis decimal_val_str)

section \<open>Failures, rules and the configuration\<close>

text \<open>
  Modelled from the spec: the class \<open>Failure\<close> of \<open>src/objects/failure.py\<close>, which is not
  among the source files.  A failure has a step name, a failure kind (the strings
  \<open>pod_failure\<close> and \<open>test_failure\<close> that \<open>job.py\<close> passes and compares with), an optional
  failed-test name, an optional path to the test report, and an ignore flag that is false
  when the failure is created.
\<close>

record failure =
  step :: string
  failure_type :: string
  failed_test_name :: "string option"
  failed_test_junit_path :: "string option"
  ignore :: bool

definition Failure :: "string \<Rightarrow> string \<Rightarrow> string option \<Rightarrow> string option \<Rightarrow> failure" where
  "Failure failed_step ftype name path =
     \<lparr>step = failed_step, failure_type = ftype, failed_test_name = name,
      failed_test_junit_path = path, ignore = False\<rparr>"

text \<open>
  Modelled from the spec: a failure rule of \<open>src/objects/configuration.py\<close> (not among the
  source files) is a predicate on failures, \<open>matches_failure\<close>, and an ignore directive.
\<close>

record rule =
  matches_failure :: "failure \<Rightarrow> bool"
  rule_ignore :: bool

text \<open>
  Modelled from the spec: the configuration supplies the ordered rules (possibly absent)
  and the flag for verbose test failure reporting.
\<close>

record configuration =
  failure_rules :: "rule list option"
  verbose_test_failure_reporting :: bool

section \<open>Classification: \<open>Job._find_failures\<close>\<close>

text \<open>
  The inner loop \<open>for rule in failure_rules: failure.ignore = rule.matches_failure(failure)
  and rule.ignore\<close>.  Each rule sees the failure as the rules before it left it.
\<close>

definition apply_rule :: "rule \<Rightarrow> failure \<Rightarrow> failure" where
  "apply_rule r f = f\<lparr>ignore := (matches_failure r f \<and> rule_ignore r)\<rparr>"

text \<open>
  The guard \<open>if failure_rules := self.firewatch_config.failure_rules\<close> skips the loop when
  the rules are absent or the list is empty.
\<close>

definition apply_rules :: "rule list option \<Rightarrow> failure \<Rightarrow> failure" where
  "apply_rules rules f =
     (case rules of
        None \<Rightarrow> f
      | Some rs \<Rightarrow> (if rs = [] then f else fold apply_rule rs f))"

text \<open>
  The outer loop over \<open>test_failures + pod_failures\<close>, with the set
  \<open>unique_steps_with_failures\<close> and the list \<open>failures_list\<close> as accumulators.
\<close>

fun find_failures_loop ::
  "rule list option \<Rightarrow> failure list \<Rightarrow> string set \<Rightarrow> failure list \<Rightarrow> failure list" where
  "find_failures_loop rules [] unique_steps failures_list = failures_list"
| "find_failures_loop rules (f # fs) unique_steps failures_list =
     (if step f \<notin> unique_steps
      then find_failures_loop rules fs (insert (step f) unique_steps)
             (failures_list @ [apply_rules rules f])
      else find_failures_loop rules fs unique_steps failures_list)"

text \<open>
  \<open>_find_failures\<close> itself, given the results of the two scans: the list when it is not
  empty, \<open>None\<close> otherwise.
\<close>

definition find_failures ::
  "configuration \<Rightarrow> failure list \<Rightarrow> failure list \<Rightarrow> failure list option" where
  "find_failures cfg pod_failures test_failures =
     (let failures_list =
            find_failures_loop (failure_rules cfg) (test_failures @ pod_failures) {} []
      in if length failures_list > 0 then Some failures_list else None)"


section \<open>Job identity: \<open>Job.__init__\<close>, lines 55 to 72\<close>

text \<open>\<open>os.getenv\<close>: the environment, read by variable name.\<close>

type_synonym env = "string \<Rightarrow> string option"

datatype level = DEBUG | INFO | WARNING | ERROR

type_synonym log = "(level \<times> string) list"

text \<open>
  \<open>_check_is_rehearsal\<close>: \<open>job_name.startswith("rehearse")\<close>, which raises
  \<open>AttributeError\<close> when neither the argument nor \<open>JOB_NAME\<close> gave a name.
\<close>

definition check_is_rehearsal :: "string option \<Rightarrow> error + bool" where
  "check_is_rehearsal job_name =
     (case job_name of
        None \<Rightarrow> Inl AttributeError
      | Some n \<Rightarrow> Inr (prefix ''rehearse'' n))"

text \<open>
  The last operand of \<open>pr_id or os.getenv("PULL_NUMBER") or self.name.split("-")[1]\<close> inside
  its \<open>try\<close>: the second token of the name, or, when the \<open>IndexError\<close> is caught, the id
  \<open>"1"\<close> with a warning.
\<close>

definition pr_id_from_name :: "string \<Rightarrow> string \<times> log" where
  "pr_id_from_name job_name =
     (case py_index (split CHR ''-'' job_name) 1 of
        Inr token \<Rightarrow> (token, [])
      | Inl e \<Rightarrow>
          (''1'',
           [(WARNING, ''Pull number for job '' @ job_name @
               '' not obtained, reporting may not be complete.'')]))"

text \<open>
  The pull-request id: for a rehearsal the first truthy value of the argument and
  \<open>PULL_NUMBER\<close>, else what the name gives, and then the info message; for any other job the
  empty string.  The messages logged on the way are returned with the id.
\<close>

definition derive_pr_id :: "bool \<Rightarrow> string \<Rightarrow> string option \<Rightarrow> env \<Rightarrow> string \<times> log" where
  "derive_pr_id rehearsal job_name pr_id getenv =
     (if rehearsal then
        (case (case py_or pr_id (getenv ''PULL_NUMBER'') of
                 Some s \<Rightarrow> if s \<noteq> [] then (s, []) else pr_id_from_name job_name
               | None \<Rightarrow> pr_id_from_name job_name) of
           (found, warnings) \<Rightarrow> (found, warnings @ [(INFO, ''PR ID: '' @ found)]))
      else ([], []))"

section \<open>The object store and step discovery: \<open>Job._get_steps\<close>\<close>

text \<open>
  A blob is its object name and its content; a bucket is the blobs in listing order.
  \<open>storage_client.list_blobs(bucket, prefix=p)\<close> yields the blobs whose name starts
  with \<open>p\<close>.
\<close>

type_synonym blob = "string \<times> string"

definition list_blobs :: "blob list \<Rightarrow> string \<Rightarrow> blob list" where
  "list_blobs bucket p = filter (\<lambda>b. prefix p (fst b)) bucket"

text \<open>The two prefixes that the f-strings of the listing calls build.\<close>

definition logs_prefix :: "string option \<Rightarrow> string option \<Rightarrow> string option \<Rightarrow> string" where
  "logs_prefix job_name build_id job_name_safe =
     ''logs/'' @ fmt job_name @ ''/'' @ fmt build_id @ ''/artifacts/'' @ fmt job_name_safe"

definition rehearsal_prefix ::
  "string option \<Rightarrow> string option \<Rightarrow> string option \<Rightarrow> string option \<Rightarrow> string" where
  "rehearsal_prefix pr_id job_name build_id job_name_safe =
     ''pr-logs/pull/openshift_release/'' @ fmt pr_id @ ''/'' @ fmt job_name @ ''/'' @
     fmt build_id @ ''/artifacts/'' @ fmt job_name_safe"

text \<open>The loop \<open>for blob in blobs: steps.append(blob.name.split("/")[-2])\<close>.\<close>

fun steps_loop :: "blob list \<Rightarrow> string list \<Rightarrow> error + string list" where
  "steps_loop [] steps = Inr steps"
| "steps_loop (blob # blobs) steps =
     (case py_index (split CHR ''/'' (fst blob)) (- 2) of
        Inl e \<Rightarrow> Inl e
      | Inr blob_step \<Rightarrow> steps_loop blobs (steps @ [blob_step]))"

text \<open>
  \<open>_get_steps\<close> lists under the \<open>logs/\<close> prefix whatever the kind of job, and calls
  \<open>exit(1)\<close> when no step was found and the job is not a rehearsal.
\<close>

definition get_steps ::
  "bool \<Rightarrow> blob list \<Rightarrow> string option \<Rightarrow> string option \<Rightarrow> string option \<Rightarrow>
   error + string list" where
  "get_steps rehearsal bucket job_name job_name_safe build_id =
     (case steps_loop (list_blobs bucket (logs_prefix job_name build_id job_name_safe)) [] of
        Inl e \<Rightarrow> Inl e
      | Inr steps \<Rightarrow>
          if length steps > 0 \<or> rehearsal then Inr steps else Inl (SystemExit 1))"

section \<open>Path strings: \<open>os.path\<close>\<close>

text \<open>
  \<open>s.rfind(c)\<close>: the last position of \<open>c\<close>, or \<open>-1\<close>.  Read from the end, the first \<open>c\<close>
  has before it as many characters as its position says.
\<close>

definition rfind :: "char \<Rightarrow> string \<Rightarrow> int" where
  "rfind c s =
     (case dropWhile (\<lambda>x. x \<noteq> c) (rev s) of
        [] \<Rightarrow> - 1
      | _ # before \<Rightarrow> int (length before))"

text \<open>
  \<open>os.path.splitext\<close>: the extension starts at the last dot of the last component, unless
  only dots stand before it in that component.
\<close>

definition splitext :: "string \<Rightarrow> string \<times> string" where
  "splitext p =
     (let sepIndex = rfind CHR ''/'' p; dotIndex = rfind CHR ''.'' p
      in if dotIndex > sepIndex \<and>
            filter (\<lambda>c. c \<noteq> CHR ''.'')
              (take (nat (dotIndex - (sepIndex + 1))) (drop (nat (sepIndex + 1)) p)) \<noteq> []
         then (take (nat dotIndex) p, drop (nat dotIndex) p)
         else (p, []))"

text \<open>\<open>os.path.join(a, b)\<close>, \<open>os.path.basename\<close> and \<open>os.path.dirname\<close> of \<open>posixpath\<close>.\<close>

definition os_path_join :: "string \<Rightarrow> string \<Rightarrow> string" where
  "os_path_join a b =
     (if prefix ''/'' b then b
      else if a = [] \<or> suffix ''/'' a then a @ b
      else a @ ''/'' @ b)"

definition basename :: "string \<Rightarrow> string" where
  "basename p = drop (nat (rfind CHR ''/'' p + 1)) p"

definition rstrip :: "char \<Rightarrow> string \<Rightarrow> string" where
  "rstrip c s = rev (dropWhile (\<lambda>x. x = c) (rev s))"

definition dirname :: "string \<Rightarrow> string" where
  "dirname p =
     (let head = take (nat (rfind CHR ''/'' p + 1)) p
      in if head \<noteq> [] \<and> head \<noteq> replicate (length head) CHR ''/''
         then rstrip CHR ''/'' head else head)"

section \<open>The local file system\<close>

text \<open>
  The part of the file system that the job touches, newest entry first.  An entry is an
  absolute path in canonical form (every component led by one slash, none of them empty,
  \<open>.\<close> or \<open>..\<close>; the root is the empty string) and what lies there: a directory, or a file
  with its content.  The root is a directory, and so is every path above an entry, listed or
  not.  There are no symbolic links, and the process may search and write every directory.
\<close>

datatype node = Dir | File string

type_synonym fs = "(string \<times> node) list"

definition node_at :: "fs \<Rightarrow> string \<Rightarrow> node option" where
  "node_at fs q =
     (if q = [] then Some Dir
      else (case map_of fs q of
              Some n \<Rightarrow> Some n
            | None \<Rightarrow>
                if list_ex (\<lambda>entry. prefix (q @ ''/'') (fst entry)) fs then Some Dir else None))"

definition parent :: "string \<Rightarrow> string" where
  "parent q = take (nat (rfind CHR ''/'' q)) q"

text \<open>
  Path resolution, as the kernel does it: the components of the path string are followed
  one by one, here from the root (\<open>job.py\<close> builds its paths from \<open>/tmp/\<close>; a relative path
  is read as if the working directory were the root).  A component is looked up only in a
  directory: below a path that is missing the call fails with \<open>ENOENT\<close>, below a file with
  \<open>ENOTDIR\<close>.  An empty component, which a leading, doubled or trailing slash gives, and
  \<open>.\<close> stay where they are; \<open>..\<close> goes one up, and stays at the root.  The result is the
  canonical path reached, which may or may not exist.
\<close>

fun resolve :: "fs \<Rightarrow> string \<Rightarrow> string list \<Rightarrow> error + string" where
  "resolve fs cur [] = Inr cur"
| "resolve fs cur (c # cs) =
     (case node_at fs cur of
        None \<Rightarrow> Inl FileNotFoundError
      | Some (File x) \<Rightarrow> Inl NotADirectoryError
      | Some Dir \<Rightarrow>
          if c = [] \<or> c = ''.'' then resolve fs cur cs
          else if c = ''..'' then resolve fs (parent cur) cs
          else resolve fs (cur @ ''/'' @ c) cs)"

text \<open>
  \<open>os.path.exists(p)\<close>: whether \<open>os.stat(p)\<close> succeeds.  It is false for the empty string
  and wherever the resolution fails.
\<close>

definition path_exists :: "fs \<Rightarrow> string \<Rightarrow> bool" where
  "path_exists fs p =
     (p \<noteq> [] \<and>
      (case resolve fs [] (split CHR ''/'' p) of
         Inl e \<Rightarrow> False
       | Inr q \<Rightarrow> node_at fs q \<noteq> None))"

text \<open>
  The components of a path without the empty ones that trailing slashes leave; none are
  left for a path of slashes only, which names the root.
\<close>

definition components :: "string \<Rightarrow> string list" where
  "components p = rev (dropWhile (\<lambda>c. c = []) (rev (split CHR ''/'' p)))"

text \<open>
  What \<open>os.mkdir(p)\<close> and \<open>open(p, "xb")\<close> have in common.  The path up to its last
  component is resolved and must be a directory; the last component is created there unless
  it exists already, as \<open>.\<close> and \<open>..\<close> always do.  \<open>os.mkdir\<close> accepts trailing slashes;
  \<open>open\<close> in a creating mode answers them with \<open>EISDIR\<close>.  A call that fails leaves the file
  system as it was.
\<close>

definition create :: "node \<Rightarrow> bool \<Rightarrow> string \<Rightarrow> fs \<Rightarrow> (error + unit) \<times> fs" where
  "create n regular p fs =
     (if p = [] then (Inl FileNotFoundError, fs)
      else if components p = [] then (Inl FileExistsError, fs)
      else
        (case resolve fs [] (butlast (components p)) of
           Inl e \<Rightarrow> (Inl e, fs)
         | Inr d \<Rightarrow>
             (case node_at fs d of
                None \<Rightarrow> (Inl FileNotFoundError, fs)
              | Some (File x) \<Rightarrow> (Inl NotADirectoryError, fs)
              | Some Dir \<Rightarrow>
                  if regular \<and> suffix ''/'' p then (Inl IsADirectoryError, fs)
                  else if last (components p) = ''.'' \<or> last (components p) = ''..'' \<or>
                          node_at fs (d @ ''/'' @ last (components p)) \<noteq> None
                  then (Inl FileExistsError, fs)
                  else (Inr (), (d @ ''/'' @ last (components p), n) # fs))))"

definition os_mkdir :: "string \<Rightarrow> fs \<Rightarrow> (error + unit) \<times> fs" where
  "os_mkdir p fs = create Dir False p fs"

text \<open>\<open>with open(p, "xb") as target: blob.download_to_file(target)\<close>.\<close>

definition open_xb :: "string \<Rightarrow> string \<Rightarrow> fs \<Rightarrow> (error + unit) \<times> fs" where
  "open_xb p content fs = create (File content) True p fs"

text \<open>\<open>if not os.path.exists(p): os.mkdir(p)\<close>.\<close>

definition mkdir_if_missing :: "string \<Rightarrow> fs \<Rightarrow> (error + unit) \<times> fs" where
  "mkdir_if_missing p fs = (if \<not> path_exists fs p then os_mkdir p fs else (Inr (), fs))"

section \<open>Downloads: \<open>Job._download_junit\<close> and \<open>Job._download_logs\<close>\<close>

text \<open>
  Only finitely many of the names that the search below tries can exist.  The counter
  stands in one component of the candidate path, next to an underscore, so that component
  is a proper name; a candidate that exists has that name listed in the directory that the
  components before it lead to, or above a listed path; and different counters give
  different names.
\<close>

lemma split_hd_tl: "split c s = hd (split c s) # tl (split c s)"
  by (induction s) (auto split: list.splits)

lemma split_append:
  "split c (xs @ ys) =
   butlast (split c xs) @ (last (split c xs) @ hd (split c ys)) # tl (split c ys)"
proof (induction xs)
  case Nil
  show ?case using split_hd_tl [of c ys] by simp
next
  case (Cons x xs)
  obtain w ws where s: "split c xs = w # ws" using split_hd_tl [of c xs] by blast
  show ?case
  proof (cases "x = c")
    case True
    then show ?thesis using Cons s by simp
  next
    case False
    then show ?thesis using Cons s by (cases ws) simp_all
  qed
qed

lemma split_single: "c \<notin> set s \<Longrightarrow> split c s = [s]"
  by (induction s) auto

lemma digit_char_not_slash: "d < 10 \<Longrightarrow> CHR ''/'' \<noteq> digit_char d"
proof -
  assume "d < 10"
  then have "d \<in> {0, 1, 2, 3, 4, 5, 6, 7, 8, 9}" by auto
  then show ?thesis by (auto simp: digit_char_def)
qed

lemma str_no_slash: "CHR ''/'' \<notin> set (str n)"
proof (induction n rule: str.induct)
  case (1 n)
  show ?case
  proof (cases "n < 10")
    case True
    then show ?thesis by (subst str.simps) (simp add: digit_char_not_slash)
  next
    case False
    then have "CHR ''/'' \<notin> set (str (n div 10))" using 1 by simp
    then show ?thesis using False
      by (subst str.simps) (simp add: digit_char_not_slash)
  qed
qed

lemma candidate_components:
  "split CHR ''/'' (a @ ''_'' @ str k @ b) =
   butlast (split CHR ''/'' a) @
   (last (split CHR ''/'' a) @ ''_'' @ str k @ hd (split CHR ''/'' b)) # tl (split CHR ''/'' b)"
proof -
  have "split CHR ''/'' ((''_'' @ str k) @ b) =
        (''_'' @ str k @ hd (split CHR ''/'' b)) # tl (split CHR ''/'' b)"
    by (subst split_append) (simp add: split_single str_no_slash)
  then show ?thesis
    by (subst split_append) simp
qed

lemma resolve_append:
  "resolve fs cur (xs @ ys) =
   (case resolve fs cur xs of Inl e \<Rightarrow> Inl e | Inr q \<Rightarrow> resolve fs q ys)"
  by (induction xs arbitrary: cur) (auto split: option.splits node.splits)

lemma resolve_named:
  assumes "resolve fs cur (c # cs) = Inr q" and "node_at fs q \<noteq> None"
    and "c \<noteq> []" and "c \<noteq> ''.''" and "c \<noteq> ''..''"
  shows "node_at fs (cur @ ''/'' @ c) \<noteq> None"
proof (cases cs)
  case Nil
  then show ?thesis using assms by (auto split: option.splits node.splits)
next
  case (Cons d ds)
  then show ?thesis using assms by (auto split: option.splits node.splits)
qed

lemma finite_nodes: "finite {q. node_at fs q \<noteq> None}"
proof -
  have "{q. node_at fs q \<noteq> None} \<subseteq>
        insert [] (fst ` set fs \<union> (\<Union>e \<in> set fs. set (prefixes (fst e))))"
  proof
    fix q
    assume "q \<in> {q. node_at fs q \<noteq> None}"
    then have n: "node_at fs q \<noteq> None" by simp
    show "q \<in> insert [] (fst ` set fs \<union> (\<Union>e \<in> set fs. set (prefixes (fst e))))"
    proof (cases "q = [] \<or> map_of fs q \<noteq> None")
      case True
      then show ?thesis using map_of_eq_None_iff [of fs q] by auto
    next
      case False
      then have "list_ex (\<lambda>entry. prefix (q @ ''/'') (fst entry)) fs"
        using n by (auto simp: node_at_def split: if_splits)
      then obtain e where "e \<in> set fs" and "prefix (q @ ''/'') (fst e)"
        by (auto simp: list_ex_iff)
      then have "q \<in> set (prefixes (fst e))"
        by (auto dest: append_prefixD)
      then show ?thesis using \<open>e \<in> set fs\<close> by blast
    qed
  qed
  then show ?thesis by (rule finite_subset) simp
qed

lemma finite_candidates:
  "finite {k. path_exists fs (dir @ ''/'' @ filename @ ''_'' @ str k @ extension)}"
proof -
  define a where "a = dir @ ''/'' @ filename"
  define pre where "pre = butlast (split CHR ''/'' a)"
  define l where "l = last (split CHR ''/'' a)"
  define h where "h = hd (split CHR ''/'' extension)"
  define post where "post = tl (split CHR ''/'' extension)"
  define comp where "comp = (\<lambda>k. l @ ''_'' @ str k @ h)"
  have comps: "split CHR ''/'' (dir @ ''/'' @ filename @ ''_'' @ str k @ extension) =
               pre @ comp k # post" for k
    using candidate_components [of a k extension]
    by (simp add: a_def pre_def l_def h_def post_def comp_def)
  have named: "comp k \<noteq> [] \<and> comp k \<noteq> ''.'' \<and> comp k \<noteq> ''..''" for k
  proof -
    have "CHR ''_'' \<in> set (comp k)" by (simp add: comp_def)
    then show ?thesis by auto
  qed
  show ?thesis
  proof (cases "resolve fs [] pre")
    case (Inl e)
    then have "\<not> path_exists fs (dir @ ''/'' @ filename @ ''_'' @ str k @ extension)" for k
      unfolding path_exists_def comps by (simp add: resolve_append)
    then show ?thesis by simp
  next
    case (Inr q0)
    have "{k. path_exists fs (dir @ ''/'' @ filename @ ''_'' @ str k @ extension)} \<subseteq>
          (\<lambda>k. q0 @ ''/'' @ comp k) -` {q. node_at fs q \<noteq> None}"
    proof
      fix k
      assume "k \<in> {k. path_exists fs (dir @ ''/'' @ filename @ ''_'' @ str k @ extension)}"
      then have "path_exists fs (dir @ ''/'' @ filename @ ''_'' @ str k @ extension)" by simp
      then obtain q where "resolve fs q0 (comp k # post) = Inr q" and "node_at fs q \<noteq> None"
        unfolding path_exists_def comps using Inr
        by (auto simp: resolve_append split: sum.splits)
      then have "node_at fs (q0 @ ''/'' @ comp k) \<noteq> None"
        using named [of k] by (intro resolve_named) auto
      then show "k \<in> (\<lambda>k. q0 @ ''/'' @ comp k) -` {q. node_at fs q \<noteq> None}" by simp
    qed
    moreover have "inj (\<lambda>k. q0 @ ''/'' @ comp k)"
      by (rule injI) (simp add: comp_def str_inj)
    then have "finite ((\<lambda>k. q0 @ ''/'' @ comp k) -` {q. node_at fs q \<noteq> None})"
      using finite_nodes by (rule finite_vimageI [rotated])
    ultimately show ?thesis by (rule finite_subset)
  qed
qed

text \<open>
  The search for a free name in \<open>_download_junit\<close>:
  \<open>while os.path.exists(file_path): file_path = f"{path}/{blob_step}/{filename}_{file_counter}{extension}";
  file_counter += 1\<close>, where \<open>dir\<close> stands for \<open>f"{path}/{blob_step}"\<close>.  It ends because
  only finitely many of the candidates exist.
\<close>

function free_path :: "fs \<Rightarrow> string \<Rightarrow> string \<Rightarrow> string \<Rightarrow> string \<Rightarrow> nat \<Rightarrow> string" where
  "free_path fs dir filename extension file_path file_counter =
     (if path_exists fs file_path
      then free_path fs dir filename extension
             (dir @ ''/'' @ filename @ ''_'' @ str file_counter @ extension) (file_counter + 1)
      else file_path)"
  by pat_completeness auto
termination
proof (relation "measure (\<lambda>(fs, dir, filename, extension, file_path, file_counter).
     2 * card {k. file_counter \<le> k \<and>
                  path_exists fs (dir @ ''/'' @ filename @ ''_'' @ str k @ extension)} +
     (if path_exists fs file_path then 1 else 0))")
  show "wf (measure (\<lambda>(fs, dir, filename, extension, file_path, file_counter).
     2 * card {k. file_counter \<le> k \<and>
                  path_exists fs (dir @ ''/'' @ filename @ ''_'' @ str k @ extension)} +
     (if path_exists fs file_path then 1 else 0)))" by simp
next
  fix fs :: fs and dir filename extension file_path :: string and file_counter :: nat
  assume ex: "path_exists fs file_path"
  let ?S = "\<lambda>c. {k. c \<le> k \<and> path_exists fs (dir @ ''/'' @ filename @ ''_'' @ str k @ extension)}"
  have fin: "finite (?S c)" for c
    by (rule finite_subset [OF _ finite_candidates [of fs dir filename extension]]) auto
  show "((fs, dir, filename, extension,
          dir @ ''/'' @ filename @ ''_'' @ str file_counter @ extension, file_counter + 1),
         (fs, dir, filename, extension, file_path, file_counter)) \<in>
        measure (\<lambda>(fs, dir, filename, extension, file_path, file_counter).
     2 * card {k. file_counter \<le> k \<and>
                  path_exists fs (dir @ ''/'' @ filename @ ''_'' @ str k @ extension)} +
     (if path_exists fs file_path then 1 else 0))"
  proof (cases "path_exists fs (dir @ ''/'' @ filename @ ''_'' @ str file_counter @ extension)")
    case True
    have "?S file_counter = insert file_counter (?S (file_counter + 1))"
      using True by (auto simp: le_Suc_eq)
    then have "card (?S file_counter) = Suc (card (?S (file_counter + 1)))"
      using fin [of "file_counter + 1"] by simp
    then show ?thesis using ex True by simp
  next
    case False
    have "?S file_counter = ?S (file_counter + 1)"
      using False by (auto simp: le_Suc_eq) (metis le_antisym not_less_eq_eq)
    then show ?thesis using ex False by simp
  qed
qed

declare free_path.simps [simp del]

text \<open>
  The body of the loop of \<open>_download_junit\<close> for one blob; \<open>path\<close> is
  \<open>f"{downloads_directory}/artifacts"\<close>.
\<close>

definition junit_blob :: "string \<Rightarrow> blob \<Rightarrow> fs \<Rightarrow> (error + unit) \<times> fs" where
  "junit_blob path blob fs =
     (case py_index (split CHR ''/'' (fst blob)) (- 1) of
        Inl e \<Rightarrow> (Inl e, fs)
      | Inr blob_name \<Rightarrow>
          if sublist ''junit'' blob_name then
            (case py_index (split CHR ''/'' (fst blob)) 5 of
               Inl e \<Rightarrow> (Inl e, fs)
             | Inr blob_step \<Rightarrow>
                 (case mkdir_if_missing (path @ ''/'' @ blob_step) fs of
                    (Inl e, fs1) \<Rightarrow> (Inl e, fs1)
                  | (Inr _, fs1) \<Rightarrow>
                      (case splitext blob_name of
                         (filename, extension) \<Rightarrow>
                           open_xb
                             (free_path fs1 (path @ ''/'' @ blob_step) filename extension
                                (path @ ''/'' @ blob_step @ ''/'' @ filename @ extension) 1)
                             (snd blob) fs1)))
          else (Inr (), fs))"

fun junit_blobs :: "string \<Rightarrow> blob list \<Rightarrow> fs \<Rightarrow> (error + unit) \<times> fs" where
  "junit_blobs path [] fs = (Inr (), fs)"
| "junit_blobs path (blob # blobs) fs =
     (case junit_blob path blob fs of
        (Inl e, fs1) \<Rightarrow> (Inl e, fs1)
      | (Inr _, fs1) \<Rightarrow> junit_blobs path blobs fs1)"

text \<open>The listing that both download passes make: the prefix depends on the kind of job.\<close>

definition job_blobs ::
  "bool \<Rightarrow> blob list \<Rightarrow> string option \<Rightarrow> string option \<Rightarrow> string option \<Rightarrow> string option \<Rightarrow>
   blob list" where
  "job_blobs rehearsal bucket job_name build_id job_name_safe pr_id =
     (if rehearsal
      then list_blobs bucket (rehearsal_prefix pr_id job_name build_id job_name_safe)
      else list_blobs bucket (logs_prefix job_name build_id job_name_safe))"

definition download_junit ::
  "bool \<Rightarrow> string \<Rightarrow> blob list \<Rightarrow> string option \<Rightarrow> string option \<Rightarrow> string option \<Rightarrow>
   string option \<Rightarrow> fs \<Rightarrow> (error + string) \<times> fs" where
  "download_junit rehearsal downloads_directory bucket job_name build_id job_name_safe pr_id fs =
     (let path = downloads_directory @ ''/artifacts''
      in case mkdir_if_missing path fs of
           (Inl e, fs1) \<Rightarrow> (Inl e, fs1)
         | (Inr _, fs1) \<Rightarrow>
             (case junit_blobs path
                     (job_blobs rehearsal bucket job_name build_id job_name_safe pr_id) fs1 of
                (Inl e, fs2) \<Rightarrow> (Inl e, fs2)
              | (Inr _, fs2) \<Rightarrow> (Inr path, fs2)))"

text \<open>
  The body of the loop of \<open>_download_logs\<close> for one blob; \<open>path\<close> is
  \<open>f"{downloads_directory}/logs"\<close>.  Both segments are read before the name is tested.
\<close>

definition logs_blob :: "string \<Rightarrow> blob \<Rightarrow> fs \<Rightarrow> (error + unit) \<times> fs" where
  "logs_blob path blob fs =
     (case py_index (split CHR ''/'' (fst blob)) (- 1) of
        Inl e \<Rightarrow> (Inl e, fs)
      | Inr blob_name \<Rightarrow>
          (case py_index (split CHR ''/'' (fst blob)) (- 2) of
             Inl e \<Rightarrow> (Inl e, fs)
           | Inr blob_step \<Rightarrow>
               if blob_name \<in> set [''finished.json'', ''build-log.txt''] then
                 (case mkdir_if_missing (path @ ''/'' @ blob_step) fs of
                    (Inl e, fs1) \<Rightarrow> (Inl e, fs1)
                  | (Inr _, fs1) \<Rightarrow>
                      open_xb (path @ ''/'' @ blob_step @ ''/'' @ blob_name) (snd blob) fs1)
               else (Inr (), fs)))"

fun logs_blobs :: "string \<Rightarrow> blob list \<Rightarrow> fs \<Rightarrow> (error + unit) \<times> fs" where
  "logs_blobs path [] fs = (Inr (), fs)"
| "logs_blobs path (blob # blobs) fs =
     (case logs_blob path blob fs of
        (Inl e, fs1) \<Rightarrow> (Inl e, fs1)
      | (Inr _, fs1) \<Rightarrow> logs_blobs path blobs fs1)"

definition download_logs ::
  "bool \<Rightarrow> string \<Rightarrow> blob list \<Rightarrow> string option \<Rightarrow> string option \<Rightarrow> string option \<Rightarrow>
   string option \<Rightarrow> fs \<Rightarrow> (error + string) \<times> fs" where
  "download_logs rehearsal downloads_directory bucket job_name build_id job_name_safe pr_id fs =
     (let path = downloads_directory @ ''/logs''
      in case mkdir_if_missing path fs of
           (Inl e, fs1) \<Rightarrow> (Inl e, fs1)
         | (Inr _, fs1) \<Rightarrow>
             (case logs_blobs path
                     (job_blobs rehearsal bucket job_name build_id job_name_safe pr_id) fs1 of
                (Inl e, fs2) \<Rightarrow> (Inl e, fs2)
              | (Inr _, fs2) \<Rightarrow> (Inr path, fs2)))"

text \<open>\<open>_get_download_path\<close>.\<close>

definition get_download_path :: "string option \<Rightarrow> fs \<Rightarrow> (error + string) \<times> fs" where
  "get_download_path build_id fs =
     (let download_path = ''/tmp/'' @ fmt build_id
      in case mkdir_if_missing download_path fs of
           (Inl e, fs1) \<Rightarrow> (Inl e, fs1)
         | (Inr _, fs1) \<Rightarrow> (Inr download_path, fs1))"


section \<open>Pod scanning: \<open>Job._find_pod_failures\<close>\<close>

text \<open>
  What \<open>json.load\<close> returns.  A number is kept as it is written; an object is the items
  of the dictionary that \<open>json.load\<close> builds, each key once.
\<close>

datatype json =
    JNull
  | JBool bool
  | JNumber string
  | JString string
  | JArray "json list"
  | JObject "(string \<times> json) list"

text \<open>
  \<open>data.get("passed", False) is False\<close>: only a dictionary has \<open>get\<close>, and only the value
  \<open>False\<close> itself is \<open>False\<close>.
\<close>

definition passed_is_false :: "json \<Rightarrow> error + bool" where
  "passed_is_false data =
     (case data of
        JObject kv \<Rightarrow>
          (case map_of kv ''passed'' of
             None \<Rightarrow> Inr True
           | Some v \<Rightarrow> Inr (v = JBool False))
      | _ \<Rightarrow> Inl AttributeError)"

text \<open>
  One entry of \<open>os.walk\<close>: the directory, its subdirectories and its files.  \<open>load p\<close>
  stands for opening \<open>p\<close> and parsing it with \<open>json.load\<close>.
\<close>

type_synonym walk_entry = "string \<times> string list \<times> string list"

fun pod_files ::
  "(string \<Rightarrow> error + json) \<Rightarrow> string \<Rightarrow> string list \<Rightarrow> failure list \<Rightarrow> error + failure list" where
  "pod_files load root [] failures = Inr failures"
| "pod_files load root (file_name # files) failures =
     (if file_name = ''finished.json'' then
        (let file_path = os_path_join root file_name
         in case load file_path of
              Inl e \<Rightarrow> Inl e
            | Inr data \<Rightarrow>
                (case passed_is_false data of
                   Inl e \<Rightarrow> Inl e
                 | Inr failed \<Rightarrow>
                     if failed
                     then pod_files load root files
                            (failures @
                             [Failure (basename (dirname file_path)) ''pod_failure'' None None])
                     else pod_files load root files failures))
      else pod_files load root files failures)"

fun pod_walk ::
  "(string \<Rightarrow> error + json) \<Rightarrow> walk_entry list \<Rightarrow> failure list \<Rightarrow> error + failure list" where
  "pod_walk load [] failures = Inr failures"
| "pod_walk load ((root, dirs, files) # rest) failures =
     (case pod_files load root files failures of
        Inl e \<Rightarrow> Inl e
      | Inr failures1 \<Rightarrow> pod_walk load rest failures1)"

definition find_pod_failures ::
  "(string \<Rightarrow> error + json) \<Rightarrow> walk_entry list \<Rightarrow> error + failure list" where
  "find_pod_failures load walk = pod_walk load walk []"

section \<open>Test scanning: \<open>Job._find_test_failures\<close>\<close>

text \<open>
  What \<open>junitparser\<close> hands to the loops.  The document is iterated for its suites and a
  suite for its cases.  A case that has the attribute \<open>result\<close> is a \<open>TestCase\<close> with its
  result entries; anything else met in a suite is an \<open>Element\<close>, which may itself be a
  failure or an error.  A name is absent when the element has no \<open>name\<close> attribute.
\<close>

datatype junit_result = JFailure | JError | JSkipped | JOther

datatype junit_case =
    TestCase "string option" "junit_result list"
  | Element junit_result

datatype junit_suite = TestSuite "string option" "junit_case list"

type_synonym junit_xml = "junit_suite list"

text \<open>The dictionary built for a failure: step, failure type, test name and report path.\<close>

type_synonym failure_dict = "string \<times> string \<times> string option \<times> string option"

text \<open>
  \<open>name.replace(" ", "_") if verbose else None\<close>: with verbose reporting a missing name
  raises \<open>AttributeError\<close>.
\<close>

definition test_name :: "bool \<Rightarrow> string option \<Rightarrow> error + string option" where
  "test_name verbose name =
     (if verbose
      then (case name of None \<Rightarrow> Inl AttributeError | Some n \<Rightarrow> Inr (Some (replace_space n)))
      else Inr None)"

definition junit_path :: "bool \<Rightarrow> string \<Rightarrow> string option" where
  "junit_path verbose file_path = (if verbose then Some file_path else None)"

text \<open>\<open>if failure not in failures_list: failures_list.append(failure)\<close>.\<close>

definition record_failure :: "failure_dict \<Rightarrow> failure_dict list \<Rightarrow> failure_dict list" where
  "record_failure failure failures_list =
     (if failure \<notin> set failures_list then failures_list @ [failure] else failures_list)"

fun scan_results ::
  "bool \<Rightarrow> string \<Rightarrow> string \<Rightarrow> string option \<Rightarrow> junit_result list \<Rightarrow> failure_dict list \<Rightarrow>
   error + failure_dict list" where
  "scan_results verbose step_name file_path case_name [] failures_list = Inr failures_list"
| "scan_results verbose step_name file_path case_name (r # rs) failures_list =
     (if r = JFailure \<or> r = JError then
        (case test_name verbose case_name of
           Inl e \<Rightarrow> Inl e
         | Inr n \<Rightarrow>
             scan_results verbose step_name file_path case_name rs
               (record_failure
                  (step_name, ''test_failure'', n, junit_path verbose file_path) failures_list))
      else scan_results verbose step_name file_path case_name rs failures_list)"

fun scan_cases ::
  "bool \<Rightarrow> string \<Rightarrow> string \<Rightarrow> string option \<Rightarrow> junit_case list \<Rightarrow> failure_dict list \<Rightarrow>
   error + failure_dict list" where
  "scan_cases verbose step_name file_path suite_name [] failures_list = Inr failures_list"
| "scan_cases verbose step_name file_path suite_name (TestCase case_name results # cs)
     failures_list =
     (if results \<noteq> [] then
        (case scan_results verbose step_name file_path case_name results failures_list of
           Inl e \<Rightarrow> Inl e
         | Inr failures1 \<Rightarrow> scan_cases verbose step_name file_path suite_name cs failures1)
      else scan_cases verbose step_name file_path suite_name cs failures_list)"
| "scan_cases verbose step_name file_path suite_name (Element r # cs) failures_list =
     (if r = JFailure \<or> r = JError then
        (case test_name verbose suite_name of
           Inl e \<Rightarrow> Inl e
         | Inr n \<Rightarrow>
             scan_cases verbose step_name file_path suite_name cs
               (record_failure
                  (step_name, ''test_failure'', n, junit_path verbose file_path) failures_list))
      else scan_cases verbose step_name file_path suite_name cs failures_list)"

fun scan_suites ::
  "bool \<Rightarrow> string \<Rightarrow> string \<Rightarrow> junit_suite list \<Rightarrow> failure_dict list \<Rightarrow>
   error + failure_dict list" where
  "scan_suites verbose step_name file_path [] failures_list = Inr failures_list"
| "scan_suites verbose step_name file_path (TestSuite suite_name cases # suites) failures_list =
     (case scan_cases verbose step_name file_path suite_name cases failures_list of
        Inl e \<Rightarrow> Inl e
      | Inr failures1 \<Rightarrow> scan_suites verbose step_name file_path suites failures1)"

text \<open>
  The loop over the files of one directory.  \<open>fromfile p\<close> stands for
  \<open>junitparser.JUnitXml.fromfile(p)\<close>, with \<open>None\<close> when it raises one of the two parse
  errors that the code catches.
\<close>

fun scan_files ::
  "bool \<Rightarrow> (string \<Rightarrow> junit_xml option) \<Rightarrow> string \<Rightarrow> string list \<Rightarrow> failure_dict list \<Rightarrow>
   error + failure_dict list" where
  "scan_files verbose fromfile root [] failures_list = Inr failures_list"
| "scan_files verbose fromfile root (file # files) failures_list =
     (let file_path = os_path_join root file
      in case fromfile file_path of
           None \<Rightarrow> scan_files verbose fromfile root files failures_list
         | Some junit_xml \<Rightarrow>
             (case scan_suites verbose (basename (dirname file_path)) file_path junit_xml
                     failures_list of
                Inl e \<Rightarrow> Inl e
              | Inr failures1 \<Rightarrow> scan_files verbose fromfile root files failures1))"

fun scan_walk ::
  "bool \<Rightarrow> (string \<Rightarrow> junit_xml option) \<Rightarrow> walk_entry list \<Rightarrow> failure_dict list \<Rightarrow>
   error + failure_dict list" where
  "scan_walk verbose fromfile [] failures_list = Inr failures_list"
| "scan_walk verbose fromfile ((root, dirs, files) # rest) failures_list =
     (case scan_files verbose fromfile root
             (filter (\<lambda>file. sublist ''junit'' file \<and> sublist ''xml'' file) files)
             failures_list of
        Inl e \<Rightarrow> Inl e
      | Inr failures1 \<Rightarrow> scan_walk verbose fromfile rest failures1)"

text \<open>The last loop turns every dictionary into a \<open>Failure\<close> object.\<close>

definition find_test_failures ::
  "bool \<Rightarrow> (string \<Rightarrow> junit_xml option) \<Rightarrow> walk_entry list \<Rightarrow> error + failure list" where
  "find_test_failures verbose fromfile walk =
     (case scan_walk verbose fromfile walk [] of
        Inl e \<Rightarrow> Inl e
      | Inr failures_list \<Rightarrow>
          Inr (map (\<lambda>(s, t, n, p). Failure s t n p) failures_list))"


section \<open>The constructor: \<open>Job.__init__\<close>\<close>

text \<open>
  The two scans of \<open>_find_failures\<close>, pods first, on the directories that the downloads
  returned; \<open>os_walk\<close> stands for \<open>os.walk\<close>.  Either scan can raise.
\<close>

definition scan_and_find_failures ::
  "configuration \<Rightarrow> (string \<Rightarrow> walk_entry list) \<Rightarrow> (string \<Rightarrow> error + json) \<Rightarrow>
   (string \<Rightarrow> junit_xml option) \<Rightarrow> string \<Rightarrow> string \<Rightarrow> error + failure list option" where
  "scan_and_find_failures cfg os_walk load fromfile logs junits =
     (case find_pod_failures load (os_walk logs) of
        Inl e \<Rightarrow> Inl e
      | Inr pod_failures \<Rightarrow>
          (case find_test_failures (verbose_test_failure_reporting cfg) fromfile
                  (os_walk junits) of
             Inl e \<Rightarrow> Inl e
           | Inr test_failures \<Rightarrow> Inr (find_failures cfg pod_failures test_failures)))"

record job =
  name :: string
  name_safe :: "string option"
  build_id :: "string option"
  is_rehearsal :: bool
  pr_id :: string
  steps :: "string list"
  download_path :: string
  logs_dir :: string
  junit_dir :: string
  failures :: "failure list option"
  has_test_failures :: bool
  has_pod_failures :: bool
  has_failures :: bool

text \<open>
  What the constructor reads beyond its arguments: the environment, the bucket, and the
  local files through \<open>os.walk\<close>, \<open>json.load\<close> and \<open>junitparser\<close>, each looking at the
  file system as the downloads left it.
\<close>

record world =
  getenv :: env
  bucket :: "blob list"
  os_walk :: "fs \<Rightarrow> string \<Rightarrow> walk_entry list"
  json_load :: "fs \<Rightarrow> string \<Rightarrow> error + json"
  junit_fromfile :: "fs \<Rightarrow> string \<Rightarrow> junit_xml option"

text \<open>
  Lines 89 to 123: the download directory, the two downloads, the scans and the three
  flags, for a job whose identity and steps are known.  An exception ends the
  construction: no job is returned, and the file system stays as the failing call left it.
\<close>

definition download_and_scan ::
  "world \<Rightarrow> configuration \<Rightarrow> string \<Rightarrow> string option \<Rightarrow> string option \<Rightarrow> bool \<Rightarrow> string \<Rightarrow>
   string list \<Rightarrow> fs \<Rightarrow> (error + job) \<times> fs" where
  "download_and_scan w cfg nm nm_safe bid rehearsal pid step_names fs =
     (case get_download_path bid fs of
        (Inl e, fs1) \<Rightarrow> (Inl e, fs1)
      | (Inr dl_path, fs1) \<Rightarrow>
          (case download_logs rehearsal dl_path (bucket w) (Some nm) bid nm_safe
                  (Some pid) fs1 of
             (Inl e, fs2) \<Rightarrow> (Inl e, fs2)
           | (Inr logs, fs2) \<Rightarrow>
               (case download_junit rehearsal dl_path (bucket w) (Some nm) bid nm_safe
                       (Some pid) fs2 of
                  (Inl e, fs3) \<Rightarrow> (Inl e, fs3)
                | (Inr junits, fs3) \<Rightarrow>
                    (case scan_and_find_failures cfg (os_walk w fs3) (json_load w fs3)
                            (junit_fromfile w fs3) logs junits of
                       Inl e \<Rightarrow> (Inl e, fs3)
                     | Inr found \<Rightarrow>
                         (Inr \<lparr>name = nm, name_safe = nm_safe, build_id = bid,
                               is_rehearsal = rehearsal, pr_id = pid,
                               steps = step_names, download_path = dl_path,
                               logs_dir = logs, junit_dir = junits, failures = found,
                               has_test_failures =
                                 list_ex (\<lambda>f. failure_type f = ''test_failure'')
                                   (case found of None \<Rightarrow> [] | Some l \<Rightarrow> l),
                               has_pod_failures =
                                 list_ex (\<lambda>f. failure_type f = ''pod_failure'')
                                   (case found of None \<Rightarrow> [] | Some l \<Rightarrow> l),
                               has_failures =
                                 (case found of None \<Rightarrow> False | Some l \<Rightarrow> l \<noteq> [])\<rparr>,
                          fs3)))))"

text \<open>
  Lines 73 to 123: step discovery comes first, and its exception, the exit of a job
  without steps included, ends the construction before anything is downloaded.
\<close>

definition populate ::
  "world \<Rightarrow> configuration \<Rightarrow> string \<Rightarrow> string option \<Rightarrow> string option \<Rightarrow> bool \<Rightarrow> string \<Rightarrow>
   fs \<Rightarrow> (error + job) \<times> fs" where
  "populate w cfg nm nm_safe bid rehearsal pid fs =
     (case get_steps rehearsal (bucket w) (Some nm) nm_safe bid of
        Inl e \<Rightarrow> (Inl e, fs)
      | Inr step_names \<Rightarrow>
          download_and_scan w cfg nm nm_safe bid rehearsal pid step_names fs)"

text \<open>
  Lines 55 to 72, then the rest: each identity value falls back to its environment
  variable, the kind of job is read from the name, and the pull-request id is derived.
  Once the check of the name has passed there is a name, so the branch for a missing name
  after it is never taken.
\<close>

definition job_init ::
  "world \<Rightarrow> configuration \<Rightarrow> string option \<Rightarrow> string option \<Rightarrow> string option \<Rightarrow>
   string option \<Rightarrow> fs \<Rightarrow> (error + job) \<times> fs" where
  "job_init w cfg name_arg name_safe_arg build_id_arg pr_id_arg fs =
     (let nm = py_or name_arg (getenv w ''JOB_NAME'');
          nm_safe = py_or name_safe_arg (getenv w ''JOB_NAME_SAFE'');
          bid = py_or build_id_arg (getenv w ''BUILD_ID'')
      in case check_is_rehearsal nm of
           Inl e \<Rightarrow> (Inl e, fs)
         | Inr rehearsal \<Rightarrow>
             (case nm of
                None \<Rightarrow> (Inl AttributeError, fs)
              | Some n \<Rightarrow>
                  populate w cfg n nm_safe bid rehearsal
                    (fst (derive_pr_id rehearsal n pr_id_arg (getenv w))) fs))"


section \<open>Properties of the classification\<close>

text \<open>
  The spec's words for the deduplication: the failure at a position is kept when no earlier
  position holds a failure of the same step.
\<close>

definition first_per_step :: "failure list \<Rightarrow> failure list" where
  "first_per_step xs =
     map (\<lambda>i. xs ! i)
       (filter (\<lambda>i. step (xs ! i) \<notin> step ` set (take i xs)) [0..<length xs])"

text \<open>
  The spec's words for the flag: the ignore directive of the last rule, in configured
  order, that matches the failure, and false when no rule matches.
\<close>

definition last_matching_ignore :: "rule list \<Rightarrow> failure \<Rightarrow> bool" where
  "last_matching_ignore rs f =
     (case filter (\<lambda>r. matches_failure r f) rs of
        [] \<Rightarrow> False
      | m # ms \<Rightarrow> rule_ignore (last (m # ms)))"

lemma apply_rule_flag_only: "apply_rule r f = f\<lparr>ignore := ignore (apply_rule r f)\<rparr>"
  by (simp add: apply_rule_def)

lemma fold_apply_rule_flag_only: "\<exists>b. fold apply_rule rs f = f\<lparr>ignore := b\<rparr>"
proof (induction rs arbitrary: f)
  case Nil
  have "f = f\<lparr>ignore := ignore f\<rparr>" by simp
  then show ?case by (metis fold_simps(1))
next
  case (Cons r rs)
  obtain b where "fold apply_rule rs (apply_rule r f) = (apply_rule r f)\<lparr>ignore := b\<rparr>"
    using Cons.IH by blast
  then have "fold apply_rule (r # rs) f = f\<lparr>ignore := b\<rparr>"
    by (simp add: apply_rule_def)
  then show ?case by blast
qed

lemma apply_rules_step [simp]: "step (apply_rules rules f) = step f"
proof -
  have "\<And>rs. step (fold apply_rule rs f) = step f"
    using fold_apply_rule_flag_only by (metis failure.select_convs(1) failure.surjective failure.update_convs(5))
  then show ?thesis by (simp add: apply_rules_def split: option.splits)
qed

lemma apply_rules_last:
  assumes "rs \<noteq> []"
  shows "apply_rules (Some rs) f = apply_rule (last rs) (fold apply_rule (butlast rs) f)"
proof -
  have "fold apply_rule (butlast rs @ [last rs]) f = apply_rule (last rs) (fold apply_rule (butlast rs) f)"
    by simp
  with assms show ?thesis by (simp add: apply_rules_def)
qed

lemma find_failures_loop_char:
  "find_failures_loop rules xs seen out =
     out @ map (apply_rules rules)
       (map (\<lambda>i. xs ! i)
          (filter (\<lambda>i. step (xs ! i) \<notin> seen \<union> step ` set (take i xs)) [0..<length xs]))"
proof (induction xs arbitrary: seen out)
  case Nil
  then show ?case by simp
next
  case (Cons x xs)
  have upt: "[0..<length (x # xs)] = 0 # map Suc [0..<length xs]"
    by (simp add: upt_conv_Cons map_Suc_upt del: upt_Suc)
  show ?case
    unfolding upt
    by (auto simp add: Cons.IH filter_map o_def simp del: upt_Suc
          intro!: arg_cong[where f="map _"] filter_cong)
qed

lemma first_per_step_distinct: "distinct (map step (first_per_step xs))"
proof -
  have "distinct (map step (map (\<lambda>i. xs ! i)
       (filter (\<lambda>i. step (xs ! i) \<notin> step ` set (take i xs)) [0..<n])))" if "n \<le> length xs" for n
    using that
  proof (induction n)
    case 0
    then show ?case by simp
  next
    case (Suc n)
    then have "n < length xs" by simp
    have mem: "step (xs ! i) \<in> step ` set (take n xs)" if "i < n" for i
      using that \<open>n < length xs\<close> by (metis imageI in_set_conv_nth length_take min.absorb2 nth_take less_imp_le)
    show ?case using Suc \<open>n < length xs\<close> by (auto simp: mem)
  qed
  then show ?thesis by (simp add: first_per_step_def)
qed

lemma first_per_step_steps: "set (map step (first_per_step xs)) = set (map step xs)"
proof
  show "set (map step (first_per_step xs)) \<subseteq> set (map step xs)"
    by (auto simp: first_per_step_def)
  show "set (map step xs) \<subseteq> set (map step (first_per_step xs))"
  proof
    fix s assume "s \<in> set (map step xs)"
    then obtain j where j: "j < length xs" "step (xs ! j) = s"
      by (auto simp: in_set_conv_nth)
    define i where "i = (LEAST k. k < length xs \<and> step (xs ! k) = s)"
    have i: "i < length xs \<and> step (xs ! i) = s"
      unfolding i_def by (rule LeastI [of _ j]) (use j in simp)
    have least: "\<not> (k < length xs \<and> step (xs ! k) = s)" if "k < i" for k
      using that not_less_Least unfolding i_def by blast
    have "step (xs ! i) \<notin> step ` set (take i xs)"
    proof
      assume "step (xs ! i) \<in> step ` set (take i xs)"
      then obtain k where "k < i" "step (xs ! k) = step (xs ! i)"
        using i by (auto simp: in_set_conv_nth)
      with least i show False by (metis less_trans)
    qed
    with i show "s \<in> set (map step (first_per_step xs))"
      by (auto simp: first_per_step_def image_iff intro!: bexI[of _ i])
  qed
qed



text \<open>Two rules that direct ignore, one for the step \<open>build\<close> and one for the step \<open>deploy\<close>.\<close>

definition rule_build :: rule where
  "rule_build = \<lparr>matches_failure = (\<lambda>f. step f = ''build''), rule_ignore = True\<rparr>"

definition rule_deploy :: rule where
  "rule_deploy = \<lparr>matches_failure = (\<lambda>f. step f = ''deploy''), rule_ignore = True\<rparr>"

definition two_rules :: configuration where
  "two_rules = \<lparr>failure_rules = Some [rule_build, rule_deploy],
                 verbose_test_failure_reporting = False\<rparr>"

lemma find_failures_char:
  "find_failures cfg pods tests =
     (if tests @ pods = [] then None
      else Some (map (apply_rules (failure_rules cfg)) (first_per_step (tests @ pods))))"
proof -
  have loop: "find_failures_loop (failure_rules cfg) (tests @ pods) {} [] =
      map (apply_rules (failure_rules cfg)) (first_per_step (tests @ pods))"
    by (simp add: find_failures_loop_char first_per_step_def)
  have "first_per_step xs = [] \<longleftrightarrow> xs = []" for xs
    using first_per_step_steps [of xs] by (metis list.map_disc_iff set_empty)
  then show ?thesis
    unfolding find_failures_def loop Let_def by simp
qed

text \<open>
  Claim C1 at two rules that both direct ignore: the first matches the failure, the second
  does not.  The last rule that matches is the first one, so the claim makes the flag true
  and lets the second rule change nothing; the code returns the failure with the flag false,
  because the second rule's assignment replaces what the first one set.
\<close>

theorem ignore_flag_reset_by_later_rule:
  "find_failures two_rules [Failure ''build'' ''pod_failure'' None None] [] =
     Some [Failure ''build'' ''pod_failure'' None None] \<and>
   ignore (Failure ''build'' ''pod_failure'' None None) = False \<and>
   last_matching_ignore [rule_build, rule_deploy] (Failure ''build'' ''pod_failure'' None None) = True"
  by (simp add: find_failures_def two_rules_def apply_rules_def apply_rule_def rule_build_def
      rule_deploy_def Failure_def last_matching_ignore_def)

text \<open>
  What the loop computes in general: every failure in the output is a failure of the input
  whose flag was replaced by the verdict of the last configured rule, match and ignore
  directive together, whether or not that rule matches.  The earlier rules only decide
  with which flag the last rule's predicate sees the failure.  Without rules the failure
  is unchanged.
\<close>

lemma ignore_flag_is_last_rule_verdict:
  assumes "find_failures cfg pod_failures test_failures = Some out"
    and "g \<in> set out"
  shows "\<exists>f \<in> set (test_failures @ pod_failures).
           (case failure_rules cfg of
              None \<Rightarrow> g = f
            | Some rs \<Rightarrow>
                if rs = [] then g = f
                else (\<exists>b. g = f\<lparr>ignore :=
                        (matches_failure (last rs) (f\<lparr>ignore := b\<rparr>) \<and> rule_ignore (last rs))\<rparr>) \<and>
                     ((\<forall>h b. matches_failure (last rs) (h\<lparr>ignore := b\<rparr>) =
                               matches_failure (last rs) h) \<longrightarrow>
                      g = f\<lparr>ignore := (matches_failure (last rs) f \<and> rule_ignore (last rs))\<rparr>))"
proof -
  from assms have "g \<in> apply_rules (failure_rules cfg) ` set (first_per_step (test_failures @ pod_failures))"
    by (auto simp: find_failures_char split: if_splits)
  moreover have "set (first_per_step xs) \<subseteq> set xs" for xs
    by (auto simp: first_per_step_def)
  ultimately obtain f where f: "f \<in> set (test_failures @ pod_failures)"
      "g = apply_rules (failure_rules cfg) f"
    by blast
  have "case failure_rules cfg of
              None \<Rightarrow> g = f
            | Some rs \<Rightarrow>
                if rs = [] then g = f
                else (\<exists>b. g = f\<lparr>ignore :=
                        (matches_failure (last rs) (f\<lparr>ignore := b\<rparr>) \<and> rule_ignore (last rs))\<rparr>) \<and>
                     ((\<forall>h b. matches_failure (last rs) (h\<lparr>ignore := b\<rparr>) =
                               matches_failure (last rs) h) \<longrightarrow>
                      g = f\<lparr>ignore := (matches_failure (last rs) f \<and> rule_ignore (last rs))\<rparr>)"
  proof (cases "failure_rules cfg")
    case None
    then show ?thesis using f by (simp add: apply_rules_def)
  next
    case (Some rs)
    show ?thesis
    proof (cases "rs = []")
      case True
      then show ?thesis using f Some by (simp add: apply_rules_def)
    next
      case False
      obtain b where b: "fold apply_rule (butlast rs) f = f\<lparr>ignore := b\<rparr>"
        using fold_apply_rule_flag_only by blast
      have g: "g = f\<lparr>ignore :=
                        (matches_failure (last rs) (f\<lparr>ignore := b\<rparr>) \<and> rule_ignore (last rs))\<rparr>"
        using f Some False by (simp add: apply_rules_last b apply_rule_def)
      then show ?thesis using Some False by auto
    qed
  qed
  with f show ?thesis by blast
qed

text \<open>
  Claim C2: the classifier runs over the test failures followed by the pod failures and
  keeps, classified, exactly the failures that are the first of their step in that order;
  the kept steps are pairwise different and are all the steps that occur; and of one test
  failure and one pod failure for the same step only the test failure is returned.
\<close>

theorem one_failure_per_step:
  "find_failures cfg pod_failures test_failures =
     (if test_failures @ pod_failures = [] then None
      else Some (map (apply_rules (failure_rules cfg))
                   (first_per_step (test_failures @ pod_failures)))) \<and>
   distinct (map step (first_per_step (test_failures @ pod_failures))) \<and>
   set (map step (first_per_step (test_failures @ pod_failures))) =
     set (map step (test_failures @ pod_failures)) \<and>
   find_failures cfg [p\<lparr>step := s, failure_type := ''pod_failure''\<rparr>]
       [t\<lparr>step := s, failure_type := ''test_failure''\<rparr>] =
     Some [apply_rules (failure_rules cfg) (t\<lparr>step := s, failure_type := ''test_failure''\<rparr>)]"
proof -
  have "find_failures cfg [p\<lparr>step := s, failure_type := ''pod_failure''\<rparr>]
       [t\<lparr>step := s, failure_type := ''test_failure''\<rparr>] =
     Some [apply_rules (failure_rules cfg) (t\<lparr>step := s, failure_type := ''test_failure''\<rparr>)]"
    by (simp add: find_failures_def)
  then show ?thesis
    using find_failures_char first_per_step_distinct first_per_step_steps by blast
qed

theorem one_failure_per_step_witness:
  "find_failures two_rules
     [Failure ''build'' ''pod_failure'' None None, Failure ''deploy'' ''pod_failure'' None None]
     [Failure ''build'' ''test_failure'' None None] =
   Some [Failure ''build'' ''test_failure'' None None,
         (Failure ''deploy'' ''pod_failure'' None None)\<lparr>ignore := True\<rparr>]"
proof -
  have first: "first_per_step
      ([Failure ''build'' ''test_failure'' None None] @
       [Failure ''build'' ''pod_failure'' None None, Failure ''deploy'' ''pod_failure'' None None]) =
      [Failure ''build'' ''test_failure'' None None, Failure ''deploy'' ''pod_failure'' None None]"
    by (simp add: first_per_step_def Failure_def upt_rec [of 0] upt_rec [of 1] upt_rec [of 2]
        upt_rec [of 3])
  have "find_failures two_rules
     [Failure ''build'' ''pod_failure'' None None, Failure ''deploy'' ''pod_failure'' None None]
     [Failure ''build'' ''test_failure'' None None] =
     Some (map (apply_rules (failure_rules two_rules))
       (first_per_step
          ([Failure ''build'' ''test_failure'' None None] @
           [Failure ''build'' ''pod_failure'' None None,
            Failure ''deploy'' ''pod_failure'' None None])))"
    using one_failure_per_step [of two_rules
        "[Failure ''build'' ''pod_failure'' None None, Failure ''deploy'' ''pod_failure'' None None]"
        "[Failure ''build'' ''test_failure'' None None]", THEN conjunct1]
    by simp
  then show ?thesis
    unfolding first
    by (simp add: two_rules_def apply_rules_def apply_rule_def rule_build_def
        rule_deploy_def Failure_def)
qed

section \<open>Properties of step discovery and of the constructor\<close>

text \<open>The second-to-last segment of an object name.\<close>

definition second_to_last :: "string \<Rightarrow> string" where
  "second_to_last k = split CHR ''/'' k ! (length (split CHR ''/'' k) - 2)"

text \<open>A world with an empty bucket, an empty environment and no local files to find.\<close>

definition empty_world :: world where
  "empty_world =
     \<lparr>getenv = (\<lambda>v. None), bucket = [], os_walk = (\<lambda>fs p. []),
      json_load = (\<lambda>fs p. Inl JSONDecodeError), junit_fromfile = (\<lambda>fs p. None)\<rparr>"

definition no_rules :: configuration where
  "no_rules = \<lparr>failure_rules = None, verbose_test_failure_reporting = False\<rparr>"

lemma length_split: "length (split c s) = Suc (length (filter (\<lambda>x. x = c) s))"
  by (induction s) (auto split: list.splits)

lemma split_not_Nil [simp]: "split c s \<noteq> []"
  using length_split [of c s] by auto

lemma prefix_two_segments:
  assumes "prefix p k" and "c \<in> set p"
  shows "2 \<le> length (split c k)"
proof -
  from assms obtain r where "k = p @ r" by (auto simp: prefix_def)
  with assms(2) have "filter (\<lambda>x. x = c) k \<noteq> []"
    by (auto simp: filter_empty_conv)
  then show ?thesis
    by (cases "filter (\<lambda>x. x = c) k") (simp_all add: length_split)
qed

lemma py_index_minus_two:
  "2 \<le> length xs \<Longrightarrow> py_index xs (- 2) = Inr (xs ! (length xs - 2))"
  by (auto simp: py_index_def nat_diff_distrib' intro!: arg_cong[where f="nth xs"])

lemma py_index_one:
  "py_index xs 1 = (if 2 \<le> length xs then Inr (xs ! 1) else Inl IndexError)"
  by (auto simp: py_index_def)

lemma steps_loop_char:
  assumes "\<And>b. b \<in> set blobs \<Longrightarrow> 2 \<le> length (split CHR ''/'' (fst b))"
  shows "steps_loop blobs acc = Inr (acc @ map (\<lambda>b. second_to_last (fst b)) blobs)"
  using assms
  by (induction blobs arbitrary: acc) (simp_all add: py_index_minus_two second_to_last_def)

lemma logs_prefix_slash: "CHR ''/'' \<in> set (logs_prefix jn bid jns)"
  by (simp add: logs_prefix_def)

lemma get_steps_char:
  "get_steps rehearsal bkt jn jns bid =
     (if list_blobs bkt (logs_prefix jn bid jns) = [] \<and> \<not> rehearsal then Inl (SystemExit 1)
      else Inr (map (\<lambda>b. second_to_last (fst b)) (list_blobs bkt (logs_prefix jn bid jns))))"
proof -
  have "steps_loop (list_blobs bkt (logs_prefix jn bid jns)) [] =
     Inr ([] @ map (\<lambda>b. second_to_last (fst b)) (list_blobs bkt (logs_prefix jn bid jns)))"
    by (rule steps_loop_char)
       (auto simp: list_blobs_def intro: prefix_two_segments [OF _ logs_prefix_slash])
  then show ?thesis by (auto simp: get_steps_def)
qed

lemma derive_pr_id_unsupplied:
  assumes "\<not> truthy (py_or pr_id_arg (ge ''PULL_NUMBER''))"
  shows "derive_pr_id True n pr_id_arg ge =
     (if 2 \<le> length (split CHR ''-'' n)
      then (split CHR ''-'' n ! 1, [(INFO, ''PR ID: '' @ split CHR ''-'' n ! 1)])
      else (''1'',
            [(WARNING, ''Pull number for job '' @ n @
                '' not obtained, reporting may not be complete.''),
             (INFO, ''PR ID: 1'')]))"
  using assms
  by (auto simp: derive_pr_id_def pr_id_from_name_def py_index_one truthy_def
      split: option.splits)

text \<open>
  Claim C3 says that no step name occurs twice in the list that step discovery returns.
  Two objects of one step give that step twice.
\<close>

theorem get_steps_duplicate_counterexample:
  "get_steps False
     [(''logs/job/1/artifacts/safe/step1/finished.json'', ''a''),
      (''logs/job/1/artifacts/safe/step1/build-log.txt'', ''b'')]
     (Some ''job'') (Some ''safe'') (Some ''1'') = Inr [''step1'', ''step1''] \<and>
   \<not> distinct [''step1'', ''step1'']"
  by (simp add: get_steps_def list_blobs_def logs_prefix_def fmt_def py_index_def)

text \<open>
  Claim C3, amended: step discovery lists the objects under the \<open>logs/\<close> prefix and returns
  the second-to-last segment of every object name, in listing order, one entry for each
  object and so with repetitions; reading the segment never fails, since every listed name
  starts with a prefix that holds a slash.  Only an empty listing for a job that is not a
  rehearsal gives no list.
\<close>

theorem get_steps_one_entry_per_key:
  "get_steps rehearsal bkt jn jns bid =
     (if list_blobs bkt (logs_prefix jn bid jns) = [] \<and> \<not> rehearsal then Inl (SystemExit 1)
      else Inr (map (\<lambda>b. second_to_last (fst b)) (list_blobs bkt (logs_prefix jn bid jns))))"
  by (rule get_steps_char)

theorem get_steps_one_entry_per_key_witness:
  "get_steps False
     [(''logs/job/1/artifacts/safe/step1/finished.json'', ''a''),
      (''other/key'', ''c''),
      (''logs/job/1/artifacts/safe/step2/build-log.txt'', ''b'')]
     (Some ''job'') (Some ''safe'') (Some ''1'') = Inr [''step1'', ''step2'']"
  using get_steps_one_entry_per_key [of False
     "[(''logs/job/1/artifacts/safe/step1/finished.json'', ''a''),
       (''other/key'', ''c''),
       (''logs/job/1/artifacts/safe/step2/build-log.txt'', ''b'')]"
     "Some ''job''" "Some ''safe''" "Some ''1''"]
  by (simp add: list_blobs_def logs_prefix_def fmt_def second_to_last_def)

text \<open>
  Claim C6: when the listing under the \<open>logs/\<close> prefix is empty, the constructor of a job
  that is not a rehearsal ends with \<open>SystemExit 1\<close>, returns no job and has touched no
  file; the constructor of a rehearsal goes on to the downloads and the scans with an empty
  list of steps.
\<close>

theorem no_steps_exit:
  assumes "py_or name_arg (getenv w ''JOB_NAME'') = Some n"
    and "list_blobs (bucket w)
           (logs_prefix (Some n) (py_or build_id_arg (getenv w ''BUILD_ID''))
              (py_or name_safe_arg (getenv w ''JOB_NAME_SAFE''))) = []"
  shows "job_init w cfg name_arg name_safe_arg build_id_arg pr_id_arg fs =
           (if prefix ''rehearse'' n
            then download_and_scan w cfg n (py_or name_safe_arg (getenv w ''JOB_NAME_SAFE''))
                   (py_or build_id_arg (getenv w ''BUILD_ID'')) True
                   (fst (derive_pr_id True n pr_id_arg (getenv w))) [] fs
            else (Inl (SystemExit 1), fs))"
  using assms
  by (simp add: job_init_def check_is_rehearsal_def populate_def get_steps_char)

theorem no_steps_exit_witness:
  "job_init empty_world no_rules (Some ''periodic-ci-foo'') (Some ''foo'') (Some ''7'') None [] =
     (Inl (SystemExit 1), []) \<and>
   job_init empty_world no_rules (Some ''rehearse-123-foo'') (Some ''foo'') (Some ''7'') None
     [(''/tmp'', Dir)] =
     (Inr \<lparr>name = ''rehearse-123-foo'', name_safe = Some ''foo'', build_id = Some ''7'',
           is_rehearsal = True, pr_id = ''123'', steps = [], download_path = ''/tmp/7'',
           logs_dir = ''/tmp/7/logs'', junit_dir = ''/tmp/7/artifacts'', failures = None,
           has_test_failures = False, has_pod_failures = False, has_failures = False\<rparr>,
      [(''/tmp/7/artifacts'', Dir), (''/tmp/7/logs'', Dir), (''/tmp/7'', Dir), (''/tmp'', Dir)])"
proof -
  have env: "py_or (Some v) (getenv empty_world k) = Some v" if "v \<noteq> []" for v k
    using that by (simp add: py_or_def truthy_def)
  have none: "list_blobs (bucket empty_world) p = []" for p
    by (simp add: list_blobs_def empty_world_def)
  have a: "job_init empty_world no_rules (Some ''periodic-ci-foo'') (Some ''foo'') (Some ''7'')
             None [] = (Inl (SystemExit 1), [])"
    using no_steps_exit [OF env none, of "''periodic-ci-foo''" no_rules "Some ''foo''"
        "Some ''7''" None "[]"]
    by simp
  have b: "job_init empty_world no_rules (Some ''rehearse-123-foo'') (Some ''foo'') (Some ''7'')
             None [(''/tmp'', Dir)] =
           download_and_scan empty_world no_rules ''rehearse-123-foo'' (Some ''foo'') (Some ''7'')
             True (fst (derive_pr_id True ''rehearse-123-foo'' None (getenv empty_world))) []
             [(''/tmp'', Dir)]"
    using no_steps_exit [OF env none, of "''rehearse-123-foo''" no_rules "Some ''foo''"
        "Some ''7''" None "[(''/tmp'', Dir)]"]
    by (simp add: env)
  have c: "download_and_scan empty_world no_rules ''rehearse-123-foo'' (Some ''foo'') (Some ''7'')
             True (fst (derive_pr_id True ''rehearse-123-foo'' None (getenv empty_world))) []
             [(''/tmp'', Dir)] =
     (Inr \<lparr>name = ''rehearse-123-foo'', name_safe = Some ''foo'', build_id = Some ''7'',
           is_rehearsal = True, pr_id = ''123'', steps = [], download_path = ''/tmp/7'',
           logs_dir = ''/tmp/7/logs'', junit_dir = ''/tmp/7/artifacts'', failures = None,
           has_test_failures = False, has_pod_failures = False, has_failures = False\<rparr>,
      [(''/tmp/7/artifacts'', Dir), (''/tmp/7/logs'', Dir), (''/tmp/7'', Dir), (''/tmp'', Dir)])"
    by code_simp
  from a b c show ?thesis by simp
qed

text \<open>
  Claim C7: for a rehearsal job that is given no pull-request id, neither as argument nor
  through \<open>PULL_NUMBER\<close>, the id is the second token of the job name split at hyphens; when
  the name has fewer than two tokens the id is \<open>1\<close> and a warning is logged.  Either way no
  exception leaves the derivation: the constructor goes on to step discovery with that id.
\<close>

theorem pr_id_fallback:
  assumes "py_or name_arg (getenv w ''JOB_NAME'') = Some n"
    and "prefix ''rehearse'' n"
    and "\<not> truthy (py_or pr_id_arg (getenv w ''PULL_NUMBER''))"
  shows "derive_pr_id True n pr_id_arg (getenv w) =
           (if 2 \<le> length (split CHR ''-'' n)
            then (split CHR ''-'' n ! 1, [(INFO, ''PR ID: '' @ split CHR ''-'' n ! 1)])
            else (''1'',
                  [(WARNING, ''Pull number for job '' @ n @
                      '' not obtained, reporting may not be complete.''),
                   (INFO, ''PR ID: 1'')])) \<and>
         job_init w cfg name_arg name_safe_arg build_id_arg pr_id_arg fs =
           populate w cfg n (py_or name_safe_arg (getenv w ''JOB_NAME_SAFE''))
             (py_or build_id_arg (getenv w ''BUILD_ID'')) True
             (if 2 \<le> length (split CHR ''-'' n) then split CHR ''-'' n ! 1 else ''1'') fs"
  using assms
  by (simp add: derive_pr_id_unsupplied job_init_def check_is_rehearsal_def)

theorem pr_id_fallback_witness:
  "derive_pr_id True ''rehearse'' (Some '''') (getenv empty_world) =
     (''1'',
      [(WARNING, ''Pull number for job rehearse not obtained, reporting may not be complete.''),
       (INFO, ''PR ID: 1'')]) \<and>
   job_init empty_world no_rules (Some ''rehearse'') None None (Some '''') [] =
     populate empty_world no_rules ''rehearse'' None None True ''1'' []"
proof -
  have a: "py_or (Some ''rehearse'') (getenv empty_world ''JOB_NAME'') = Some ''rehearse''"
    by (simp add: py_or_def truthy_def)
  have b: "prefix ''rehearse'' ''rehearse''" by simp
  have c: "\<not> truthy (py_or (Some '''') (getenv empty_world ''PULL_NUMBER''))"
    by (simp add: py_or_def truthy_def empty_world_def)
  have d: "py_or None (getenv empty_world v) = None" for v
    by (simp add: py_or_def truthy_def empty_world_def)
  show ?thesis
    using pr_id_fallback [OF a b c, of no_rules None None "[]"]
    by (simp add: d)
qed

section \<open>The step directory of a downloaded report\<close>

text \<open>
  The segment at index 5 of an object name.  Under the \<open>logs/\<close> prefix, with a job name
  and a build id that hold no slash, it is the first segment below the directory of the
  job's safe name.  Under the rehearsal prefix it is the build id, whatever follows the
  prefix.
\<close>

lemma split_no_separator: "c \<notin> set s \<Longrightarrow> split c s = [s]"
  by (induction s) auto

lemma split_at_separator: "split c (xs @ c # ys) = split c xs @ split c ys"
  by (induction xs) (auto split: list.splits)

lemma split_segment:
  "c \<notin> set s \<Longrightarrow> split c (s @ c # ys) = s # split c ys"
  by (simp add: split_at_separator split_no_separator)

lemma py_index_five:
  "py_index (a # b # c # d # e # f # rest) 5 = Inr f"
  by (simp add: py_index_def)

lemma non_rehearsal_step_segment:
  assumes "CHR ''/'' \<notin> set jn" and "CHR ''/'' \<notin> set bid" and "CHR ''/'' \<notin> set (jns @ tail)"
    and "CHR ''/'' \<notin> set stp"
  shows "py_index
           (split CHR ''/''
              (logs_prefix (Some jn) (Some bid) (Some jns) @ tail @ ''/'' @ stp @ ''/'' @ rest)) 5 =
         Inr stp"
proof -
  have key: "logs_prefix (Some jn) (Some bid) (Some jns) @ tail @ ''/'' @ stp @ ''/'' @ rest =
      ''logs'' @ CHR ''/'' # jn @ CHR ''/'' # bid @ CHR ''/'' # ''artifacts'' @
      CHR ''/'' # (jns @ tail) @ CHR ''/'' # stp @ CHR ''/'' # rest"
    by (simp add: logs_prefix_def fmt_def)
  have "split CHR ''/''
          (logs_prefix (Some jn) (Some bid) (Some jns) @ tail @ ''/'' @ stp @ ''/'' @ rest) =
        ''logs'' # jn # bid # ''artifacts'' # (jns @ tail) # stp # split CHR ''/'' rest"
    unfolding key using assms
    by (subst split_segment, simp)+ simp
  then show ?thesis by (simp only: py_index_five)
qed

lemma rehearsal_build_id_segment:
  assumes "CHR ''/'' \<notin> set pid" and "CHR ''/'' \<notin> set jn" and "CHR ''/'' \<notin> set bid"
  shows "py_index
           (split CHR ''/'' (rehearsal_prefix (Some pid) (Some jn) (Some bid) (Some jns) @ rest)) 5 =
         Inr bid"
proof -
  have key: "rehearsal_prefix (Some pid) (Some jn) (Some bid) (Some jns) @ rest =
      ''pr-logs'' @ CHR ''/'' # ''pull'' @ CHR ''/'' # ''openshift_release'' @ CHR ''/'' # pid @
      CHR ''/'' # jn @ CHR ''/'' # bid @ CHR ''/'' # (''artifacts/'' @ jns @ rest)"
    by (simp add: rehearsal_prefix_def fmt_def)
  have "split CHR ''/'' (rehearsal_prefix (Some pid) (Some jn) (Some bid) (Some jns) @ rest) =
        ''pr-logs'' # ''pull'' # ''openshift_release'' # pid # jn # bid #
        split CHR ''/'' (''artifacts/'' @ jns @ rest)"
    unfolding key using assms
    by (subst split_segment, simp)+ simp
  then show ?thesis by (simp only: py_index_five)
qed

text \<open>
  Claim C5 at a rehearsal job.  The object lies under the step \<open>step1\<close>, the first segment
  below \<open>artifacts/e2e\<close>, and the file is stored under a directory named after the build
  id \<open>99\<close>, the segment at index 5 of the object name.
\<close>

theorem rehearsal_junit_stored_under_build_id:
  "download_junit True ''/tmp/99''
     [(''pr-logs/pull/openshift_release/123/rehearse-123-foo/99/artifacts/e2e/step1/junit_x.xml'',
       ''x'')]
     (Some ''rehearse-123-foo'') (Some ''99'') (Some ''e2e'') (Some ''123'') [(''/tmp/99'', Dir)] =
   (Inr ''/tmp/99/artifacts'',
    [(''/tmp/99/artifacts/99/junit_x.xml'', File ''x''), (''/tmp/99/artifacts/99'', Dir),
     (''/tmp/99/artifacts'', Dir), (''/tmp/99'', Dir)])"
  by code_simp

section \<open>Properties of pod scanning\<close>

text \<open>
  The spec's words for a failed step: the parsed record has no \<open>passed\<close> field, or has it
  with the value false.
\<close>

definition passed_absent_or_false :: "error + json \<Rightarrow> bool" where
  "passed_absent_or_false loaded =
     (case loaded of
        Inr (JObject kv) \<Rightarrow>
          map_of kv ''passed'' = None \<or> map_of kv ''passed'' = Some (JBool False)
      | _ \<Rightarrow> False)"

text \<open>
  What the spec expects of one directory of the logs tree: for each file named
  \<open>finished.json\<close>, one pod failure for the directory when the step failed in the sense
  above, and nothing otherwise.
\<close>

definition expected_pod_failures :: "(string \<Rightarrow> error + json) \<Rightarrow> walk_entry \<Rightarrow> failure list" where
  "expected_pod_failures load entry =
     (case entry of
        (root, dirs, files) \<Rightarrow>
          concat (map (\<lambda>file_name.
             if file_name = ''finished.json'' \<and>
                passed_absent_or_false (load (os_path_join root file_name))
             then [Failure (basename (dirname (os_path_join root file_name)))
                     ''pod_failure'' None None]
             else []) files))"

text \<open>The file parses, and what it holds is a record.\<close>

definition is_record :: "error + json \<Rightarrow> bool" where
  "is_record loaded = (case loaded of Inr (JObject kv) \<Rightarrow> True | _ \<Rightarrow> False)"

text \<open>
  A logs tree with three steps: \<open>a\<close> did not pass, \<open>b\<close> says nothing about passing, \<open>c\<close>
  passed.
\<close>

definition three_steps_walk :: "walk_entry list" where
  "three_steps_walk =
     [(''/tmp/7/logs'', [''a'', ''b'', ''c''], []),
      (''/tmp/7/logs/a'', [], [''build-log.txt'', ''finished.json'']),
      (''/tmp/7/logs/b'', [], [''finished.json'']),
      (''/tmp/7/logs/c'', [], [''finished.json''])]"

definition three_steps_load :: "string \<Rightarrow> error + json" where
  "three_steps_load p =
     (if p = ''/tmp/7/logs/a/finished.json'' then Inr (JObject [(''passed'', JBool False)])
      else if p = ''/tmp/7/logs/b/finished.json'' then Inr (JObject [(''result'', JString ''x'')])
      else if p = ''/tmp/7/logs/c/finished.json'' then Inr (JObject [(''passed'', JBool True)])
      else Inl JSONDecodeError)"

lemma pod_files_char:
  assumes "''finished.json'' \<in> set files \<Longrightarrow> is_record (load (os_path_join root ''finished.json''))"
  shows "pod_files load root files acc =
           Inr (acc @ expected_pod_failures load (root, dirs, files))"
  using assms
proof (induction files arbitrary: acc)
  case Nil
  then show ?case by (simp add: expected_pod_failures_def)
next
  case (Cons file_name files)
  have IH: "pod_files load root files acc' =
           Inr (acc' @ expected_pod_failures load (root, dirs, files))" for acc'
    using Cons by simp
  show ?case
  proof (cases "file_name = ''finished.json''")
    case False
    then show ?thesis by (simp add: IH expected_pod_failures_def)
  next
    case True
    then obtain kv where kv: "load (os_path_join root ''finished.json'') = Inr (JObject kv)"
      using Cons.prems by (auto simp: is_record_def split: sum.splits json.splits)
    show ?thesis
      using True kv
      by (auto simp: IH expected_pod_failures_def passed_absent_or_false_def passed_is_false_def
          Let_def split: option.splits)
  qed
qed

lemma pod_walk_char:
  assumes "\<And>root dirs files. (root, dirs, files) \<in> set walk \<Longrightarrow> ''finished.json'' \<in> set files \<Longrightarrow>
             is_record (load (os_path_join root ''finished.json''))"
  shows "pod_walk load walk acc = Inr (acc @ concat (map (expected_pod_failures load) walk))"
  using assms
proof (induction walk arbitrary: acc)
  case Nil
  then show ?case by simp
next
  case (Cons entry walk)
  obtain root dirs files where entry: "entry = (root, dirs, files)"
    by (cases entry) auto
  have "pod_files load root files acc =
           Inr (acc @ expected_pod_failures load (root, dirs, files))"
    by (rule pod_files_char) (use Cons.prems entry in auto)
  moreover have "pod_walk load walk acc' =
      Inr (acc' @ concat (map (expected_pod_failures load) walk))" for acc'
    by (rule Cons.IH) (use Cons.prems in auto)
  ultimately show ?case by (simp add: entry)
qed

lemma rfind_last_occurrence:
  assumes "c \<notin> set t"
  shows "rfind c (s @ c # t) = int (length s)"
proof -
  have d: "dropWhile (\<lambda>x. x \<noteq> c) (rev t) = []"
    using assms by (auto simp: dropWhile_eq_Nil_conv)
  show ?thesis by (simp add: rfind_def dropWhile_append3 d)
qed

lemma rstrip_keeps:
  "s \<noteq> [] \<Longrightarrow> last s \<noteq> c \<Longrightarrow> rstrip c (s @ [c]) = s"
  by (cases s rule: rev_cases) (simp_all add: rstrip_def)

lemma parent_directory_name:
  assumes "root \<noteq> []" and "last root \<noteq> CHR ''/''" and "CHR ''/'' \<notin> set file_name"
  shows "basename (dirname (os_path_join root file_name)) = basename root"
proof -
  have nsuf: "\<not> suffix ''/'' root"
    using assms(1,2) by (auto simp: suffix_def)
  have npre: "\<not> prefix ''/'' file_name"
    using assms(3) by (auto simp: prefix_def)
  have join: "os_path_join root file_name = root @ CHR ''/'' # file_name"
    using assms(1) nsuf npre by (simp add: os_path_join_def)
  have rf: "rfind CHR ''/'' (root @ CHR ''/'' # file_name) = int (length root)"
    using assms(3) by (rule rfind_last_occurrence)
  have head: "take (nat (int (length root) + 1)) (root @ CHR ''/'' # file_name) = root @ ''/''"
    by (simp add: nat_add_distrib)
  have notall: "root @ ''/'' \<noteq> replicate (length (root @ ''/'')) CHR ''/''"
  proof
    assume "root @ ''/'' = replicate (length (root @ ''/'')) CHR ''/''"
    then have "set (root @ ''/'') \<subseteq> {CHR ''/''}"
      by (metis set_replicate_conv_if subset_insertI subset_refl empty_subsetI)
    with assms(1,2) show False
      using last_in_set by fastforce
  qed
  have "dirname (os_path_join root file_name) = root"
    unfolding dirname_def join rf head Let_def
    using notall rstrip_keeps [OF assms(1,2)] by simp
  then show ?thesis by simp
qed


text \<open>
  Claim C4: when every \<open>finished.json\<close> of the logs tree parses to a record, pod scanning
  returns, in walk order, exactly one pod failure for each \<open>finished.json\<close> whose record has
  no \<open>passed\<close> field or has \<open>passed\<close> false, and none for any other file; the failure is
  attributed to the name of the directory that holds the file.
\<close>

theorem pod_scan_fail_closed:
  assumes "\<And>root dirs files. (root, dirs, files) \<in> set walk \<Longrightarrow> ''finished.json'' \<in> set files \<Longrightarrow>
             is_record (load (os_path_join root ''finished.json''))"
  shows "find_pod_failures load walk = Inr (concat (map (expected_pod_failures load) walk)) \<and>
         (root \<noteq> [] \<and> last root \<noteq> CHR ''/'' \<longrightarrow>
            basename (dirname (os_path_join root ''finished.json'')) = basename root)"
  using pod_walk_char [of walk load "[]"] assms parent_directory_name [of root "''finished.json''"]
  by (simp add: find_pod_failures_def)

theorem pod_scan_fail_closed_witness:
  "find_pod_failures three_steps_load three_steps_walk =
     Inr [Failure ''a'' ''pod_failure'' None None, Failure ''b'' ''pod_failure'' None None]"
proof -
  have rec: "is_record (three_steps_load (os_path_join root ''finished.json''))"
    if "(root, dirs, files) \<in> set three_steps_walk" "''finished.json'' \<in> set files"
    for root dirs files
    using that
    by (auto simp: three_steps_walk_def three_steps_load_def is_record_def os_path_join_def
        suffix_to_prefix)
  have "concat (map (expected_pod_failures three_steps_load) three_steps_walk) =
     [Failure ''a'' ''pod_failure'' None None, Failure ''b'' ''pod_failure'' None None]"
    by (simp add: three_steps_walk_def three_steps_load_def expected_pod_failures_def
        passed_absent_or_false_def os_path_join_def basename_def dirname_def rfind_def
        rstrip_def Let_def suffix_to_prefix)
  then show ?thesis
    using pod_scan_fail_closed [of three_steps_walk three_steps_load, OF rec] by simp
qed

section \<open>Properties of test scanning\<close>

text \<open>
  A result entry that the scan records: an instance of \<open>junitparser.Failure\<close> or
  \<open>junitparser.Error\<close>.
\<close>

definition failing :: "junit_result \<Rightarrow> bool" where
  "failing r = (r = JFailure \<or> r = JError)"

text \<open>
  Where a recorded failure comes from: the step, the name as the report has it, and the
  path of the report.
\<close>

type_synonym origin = "string \<times> string option \<times> string"

text \<open>
  The names that a report gives rise to, in document order: the case name once for every
  failing result of a case, and the suite name for a failure or error that stands in the
  suite itself.
\<close>

fun case_names :: "string option \<Rightarrow> junit_case \<Rightarrow> string option list" where
  "case_names suite_name (TestCase case_name results) =
     map (\<lambda>r. case_name) (filter failing results)"
| "case_names suite_name (Element r) = (if failing r then [suite_name] else [])"

fun suite_names :: "junit_suite \<Rightarrow> string option list" where
  "suite_names (TestSuite suite_name cases) = concat (map (case_names suite_name) cases)"

text \<open>
  The origins found in one report, which is attributed to the directory that holds it, and
  in the whole walk; a report that does not parse has none.
\<close>

definition file_origins :: "(string \<Rightarrow> junit_xml option) \<Rightarrow> string \<Rightarrow> origin list" where
  "file_origins fromfile file_path =
     (case fromfile file_path of
        None \<Rightarrow> []
      | Some junit_xml \<Rightarrow>
          map (\<lambda>nm. (basename (dirname file_path), nm, file_path))
            (concat (map suite_names junit_xml)))"

definition walk_origins :: "(string \<Rightarrow> junit_xml option) \<Rightarrow> walk_entry list \<Rightarrow> origin list" where
  "walk_origins fromfile walk =
     concat (map (\<lambda>(root, dirs, files).
        concat (map (\<lambda>file. file_origins fromfile (os_path_join root file))
          (filter (\<lambda>file. sublist ''junit'' file \<and> sublist ''xml'' file) files))) walk)"

text \<open>
  The dictionary that the scan builds for an origin, and the scan read as one pass over a
  list of origins: with verbose reporting a missing name raises, otherwise every origin is
  recorded unless it is already there.
\<close>

definition origin_dict :: "bool \<Rightarrow> origin \<Rightarrow> failure_dict" where
  "origin_dict verbose orig =
     (case orig of
        (st, nm, fp) \<Rightarrow>
          (st, ''test_failure'', (if verbose then map_option replace_space nm else None),
           junit_path verbose fp))"

definition record_all :: "bool \<Rightarrow> origin list \<Rightarrow> failure_dict list \<Rightarrow> error + failure_dict list" where
  "record_all verbose origins failures_list =
     (if verbose \<and> None \<in> set (map (\<lambda>orig. fst (snd orig)) origins) then Inl AttributeError
      else Inr (fold record_failure (map (origin_dict verbose) origins) failures_list))"

text \<open>
  The tuple by which test failures are told apart.
\<close>

definition failure_tuple :: "failure \<Rightarrow> failure_dict" where
  "failure_tuple f = (step f, failure_type f, failed_test_name f, failed_test_junit_path f)"

text \<open>
  A reports tree with one report: a case with a space in its name fails twice, a case
  without results, and a second suite that holds an error of its own.
\<close>

definition spaced_walk :: "walk_entry list" where
  "spaced_walk =
     [(''/tmp/7/artifacts'', [''e2e''], []),
      (''/tmp/7/artifacts/e2e'', [], [''junit_a.xml'', ''notes.txt''])]"

definition spaced_fromfile :: "string \<Rightarrow> junit_xml option" where
  "spaced_fromfile p =
     (if p = ''/tmp/7/artifacts/e2e/junit_a.xml''
      then Some [TestSuite (Some ''suite one'')
                   [TestCase (Some ''test x'') [JFailure],
                    TestCase (Some ''fine'') [],
                    TestCase (Some ''test x'') [JSkipped, JError]],
                 TestSuite (Some ''suite two'') [Element JError]]
      else None)"

lemma record_all_Nil [simp]: "record_all v [] l = Inr l"
  by (simp add: record_all_def)

lemma record_all_append:
  "record_all v (xs @ ys) l =
     (case record_all v xs l of Inl e \<Rightarrow> Inl e | Inr l1 \<Rightarrow> record_all v ys l1)"
  by (auto simp: record_all_def)

lemma record_all_Cons:
  "record_all v ((st, nm, fp) # os) l =
     (case test_name v nm of
        Inl e \<Rightarrow> Inl e
      | Inr n \<Rightarrow> record_all v os (record_failure (st, ''test_failure'', n, junit_path v fp) l))"
  by (auto simp: record_all_def test_name_def origin_dict_def split: option.splits)

lemma scan_results_char:
  "scan_results v st fp nm rs l =
     record_all v (map (\<lambda>x. (st, x, fp)) (map (\<lambda>r. nm) (filter failing rs))) l"
proof (induction rs arbitrary: l)
  case Nil
  then show ?case by simp
next
  case (Cons r rs)
  show ?case
  proof (cases "failing r")
    case False
    then show ?thesis using Cons by (simp add: failing_def)
  next
    case True
    then have unfold: "scan_results v st fp nm (r # rs) l =
       (case test_name v nm of
          Inl e \<Rightarrow> Inl e
        | Inr n \<Rightarrow>
            scan_results v st fp nm rs
              (record_failure (st, ''test_failure'', n, junit_path v fp) l))"
      by (simp add: failing_def)
    show ?thesis
      unfolding unfold using True by (simp add: Cons record_all_Cons split: sum.splits)
  qed
qed

lemma scan_cases_char:
  "scan_cases v st fp sn cs l =
     record_all v (map (\<lambda>x. (st, x, fp)) (concat (map (case_names sn) cs))) l"
proof (induction cs arbitrary: l)
  case Nil
  then show ?case by simp
next
  case (Cons c cs)
  show ?case
  proof (cases c)
    case (TestCase nm results)
    show ?thesis
    proof (cases "results = []")
      case True
      then show ?thesis using TestCase Cons by simp
    next
      case False
      then show ?thesis using TestCase Cons
        by (simp add: scan_results_char record_all_append split: sum.splits)
    qed
  next
    case (Element r)
    show ?thesis
    proof (cases "failing r")
      case False
      then show ?thesis using Element Cons by (simp add: failing_def)
    next
      case True
      then have unfold: "scan_cases v st fp sn (c # cs) l =
         (case test_name v sn of
            Inl e \<Rightarrow> Inl e
          | Inr n \<Rightarrow>
              scan_cases v st fp sn cs
                (record_failure (st, ''test_failure'', n, junit_path v fp) l))"
        by (simp add: Element failing_def)
      show ?thesis
        unfolding unfold using True
        by (simp add: Element Cons record_all_Cons split: sum.splits)
    qed
  qed
qed

lemma scan_suites_char:
  "scan_suites v st fp doc l =
     record_all v (map (\<lambda>x. (st, x, fp)) (concat (map suite_names doc))) l"
proof (induction doc arbitrary: l)
  case Nil
  then show ?case by simp
next
  case (Cons s doc)
  obtain sn cs where s: "s = TestSuite sn cs" by (cases s) auto
  show ?case using Cons
    by (simp add: s scan_cases_char record_all_append split: sum.splits)
qed

lemma scan_files_char:
  "scan_files v ff root files l =
     record_all v (concat (map (\<lambda>file. file_origins ff (os_path_join root file)) files)) l"
proof (induction files arbitrary: l)
  case Nil
  then show ?case by simp
next
  case (Cons f files)
  show ?case using Cons
    by (cases "ff (os_path_join root f)")
       (simp_all add: file_origins_def scan_suites_char record_all_append Let_def
          split: sum.splits)
qed

lemma scan_walk_char:
  "scan_walk v ff walk l = record_all v (walk_origins ff walk) l"
proof (induction walk arbitrary: l)
  case Nil
  then show ?case by (simp add: walk_origins_def)
next
  case (Cons entry walk)
  obtain root dirs files where entry: "entry = (root, dirs, files)" by (cases entry) auto
  have split_walk: "walk_origins ff (entry # walk) =
      concat (map (\<lambda>file. file_origins ff (os_path_join root file))
          (filter (\<lambda>file. sublist ''junit'' file \<and> sublist ''xml'' file) files)) @
      walk_origins ff walk"
    by (simp add: walk_origins_def entry)
  show ?case
    unfolding split_walk record_all_append
    using Cons by (simp add: entry scan_files_char split: sum.splits)
qed

lemma set_fold_record_failure:
  "set (fold record_failure ds l) = set l \<union> set ds"
  by (induction ds arbitrary: l) (auto simp: record_failure_def)

lemma distinct_fold_record_failure:
  "distinct l \<Longrightarrow> distinct (fold record_failure ds l)"
  by (induction ds arbitrary: l) (auto simp: record_failure_def)

lemma fold_record_failure_known:
  "set ds \<subseteq> set l \<Longrightarrow> fold record_failure ds l = l"
  by (induction ds arbitrary: l) (auto simp: record_failure_def)

lemma record_all_again:
  assumes "record_all v os l = Inr l1"
  shows "record_all v os l1 = Inr l1"
proof -
  from assms have l1: "l1 = fold record_failure (map (origin_dict v) os) l"
    and ok: "\<not> (v \<and> None \<in> set (map (\<lambda>orig. fst (snd orig)) os))"
    by (auto simp: record_all_def split: if_splits)
  have "set (map (origin_dict v) os) \<subseteq> set l1"
    unfolding l1 set_fold_record_failure by simp
  then have "fold record_failure (map (origin_dict v) os) l1 = l1"
    by (rule fold_record_failure_known)
  with ok show ?thesis by (simp add: record_all_def)
qed


lemma failure_tuple_Failure:
  "map failure_tuple (map (\<lambda>(s, t, n, p). Failure s t n p) l) = l"
  by (induction l) (auto simp: failure_tuple_def Failure_def)

lemma find_test_failures_char:
  "find_test_failures v ff walk =
     (case record_all v (walk_origins ff walk) [] of
        Inl e \<Rightarrow> Inl e
      | Inr l \<Rightarrow> Inr (map (\<lambda>(s, t, n, p). Failure s t n p) l))"
  by (simp add: find_test_failures_def scan_walk_char)

lemma no_space_left: "CHR '' '' \<notin> set (replace_space n)"
  by (auto simp: replace_space_def)

lemma spaced_run:
  "find_test_failures True spaced_fromfile spaced_walk =
     Inr [Failure ''e2e'' ''test_failure'' (Some ''test_x'')
            (Some ''/tmp/7/artifacts/e2e/junit_a.xml''),
          Failure ''e2e'' ''test_failure'' (Some ''suite_two'')
            (Some ''/tmp/7/artifacts/e2e/junit_a.xml'')]"
  by (simp add: find_test_failures_def spaced_walk_def spaced_fromfile_def sublist_code
      os_path_join_def suffix_to_prefix test_name_def replace_space_def record_failure_def
      junit_path_def basename_def dirname_def rfind_def rstrip_def Let_def)

text \<open>
  Claim C9: the test failures that the scan returns differ pairwise in the tuple of step,
  failure kind, test name and report path; recording a dictionary that is already in the list
  leaves the list as it is; and scanning a document again with the same step and path, as
  an identical document would be, adds nothing to what the first scan returned.
\<close>

theorem test_failures_recorded_once:
  assumes "find_test_failures v ff walk = Inr out"
  shows "distinct (map failure_tuple out) \<and>
         (d \<in> set l \<longrightarrow> record_failure d l = l) \<and>
         (scan_suites v st fp doc l = Inr l1 \<longrightarrow> scan_suites v st fp doc l1 = Inr l1)"
proof -
  from assms obtain ds where ds: "record_all v (walk_origins ff walk) [] = Inr ds"
    and out: "out = map (\<lambda>(s, t, n, p). Failure s t n p) ds"
    by (auto simp: find_test_failures_char split: sum.splits)
  have "distinct ds"
    using ds distinct_fold_record_failure [of "[]"]
    by (auto simp: record_all_def split: if_splits)
  then have "distinct (map failure_tuple out)"
    by (simp only: out failure_tuple_Failure)
  moreover have "d \<in> set l \<longrightarrow> record_failure d l = l"
    by (simp add: record_failure_def)
  moreover have "scan_suites v st fp doc l = Inr l1 \<longrightarrow> scan_suites v st fp doc l1 = Inr l1"
    unfolding scan_suites_char using record_all_again by blast
  ultimately show ?thesis by blast
qed

theorem test_failures_recorded_once_witness:
  "find_test_failures True spaced_fromfile spaced_walk =
     Inr [Failure ''e2e'' ''test_failure'' (Some ''test_x'')
            (Some ''/tmp/7/artifacts/e2e/junit_a.xml''),
          Failure ''e2e'' ''test_failure'' (Some ''suite_two'')
            (Some ''/tmp/7/artifacts/e2e/junit_a.xml'')] \<and>
   distinct (map failure_tuple
     [Failure ''e2e'' ''test_failure'' (Some ''test_x'')
        (Some ''/tmp/7/artifacts/e2e/junit_a.xml''),
      Failure ''e2e'' ''test_failure'' (Some ''suite_two'')
        (Some ''/tmp/7/artifacts/e2e/junit_a.xml'')])"
  using test_failures_recorded_once [OF spaced_run] spaced_run by simp

text \<open>
  Claim C10: with verbose reporting the returned failures are exactly the origins of the
  walk, each with its name after \<open>replace(" ", "_")\<close>; every origin has a name, every
  recorded name is such a replaced case or suite name, and no recorded name holds a space.
\<close>

theorem verbose_names_replace_spaces:
  assumes "find_test_failures True ff walk = Inr out"
  shows "set out =
           (\<lambda>orig. Failure (fst orig) ''test_failure''
                      (map_option replace_space (fst (snd orig))) (Some (snd (snd orig))))
             ` set (walk_origins ff walk) \<and>
         None \<notin> set (map (\<lambda>orig. fst (snd orig)) (walk_origins ff walk)) \<and>
         (\<forall>f \<in> set out. \<exists>orig \<in> set (walk_origins ff walk). \<exists>n.
             fst (snd orig) = Some n \<and> failed_test_name f = Some (replace_space n) \<and>
             CHR '' '' \<notin> set (replace_space n))"
proof -
  from assms have names: "None \<notin> set (map (\<lambda>orig. fst (snd orig)) (walk_origins ff walk))"
    and out: "out = map (\<lambda>(s, t, n, p). Failure s t n p)
                 (fold record_failure (map (origin_dict True) (walk_origins ff walk)) [])"
    by (auto simp: find_test_failures_char record_all_def split: sum.splits if_splits)
  have img: "set out =
           (\<lambda>orig. Failure (fst orig) ''test_failure''
                      (map_option replace_space (fst (snd orig))) (Some (snd (snd orig))))
             ` set (walk_origins ff walk)"
  proof -
    have one: "(\<lambda>(s, t, n, p). Failure s t n p) (origin_dict True orig) =
        Failure (fst orig) ''test_failure''
          (map_option replace_space (fst (snd orig))) (Some (snd (snd orig)))" for orig
      by (cases orig) (simp add: origin_dict_def junit_path_def)
    show ?thesis
      unfolding out by (simp add: set_fold_record_failure image_image one)
  qed
  have "\<exists>orig \<in> set (walk_origins ff walk). \<exists>n.
             fst (snd orig) = Some n \<and> failed_test_name f = Some (replace_space n) \<and>
             CHR '' '' \<notin> set (replace_space n)" if "f \<in> set out" for f
  proof -
    from that img obtain orig where orig: "orig \<in> set (walk_origins ff walk)"
      and f: "f = Failure (fst orig) ''test_failure''
                      (map_option replace_space (fst (snd orig))) (Some (snd (snd orig)))"
      by auto
    from names orig obtain n where n: "fst (snd orig) = Some n"
      by (cases "fst (snd orig)") force+
    have "failed_test_name f = Some (replace_space n)"
      by (simp add: f n Failure_def)
    with orig n no_space_left show ?thesis by blast
  qed
  with img names show ?thesis by blast
qed

theorem verbose_names_replace_spaces_witness:
  "find_test_failures True spaced_fromfile spaced_walk =
     Inr [Failure ''e2e'' ''test_failure'' (Some ''test_x'')
            (Some ''/tmp/7/artifacts/e2e/junit_a.xml''),
          Failure ''e2e'' ''test_failure'' (Some ''suite_two'')
            (Some ''/tmp/7/artifacts/e2e/junit_a.xml'')] \<and>
   (''e2e'', Some ''test x'', ''/tmp/7/artifacts/e2e/junit_a.xml'')
     \<in> set (walk_origins spaced_fromfile spaced_walk) \<and>
   (''e2e'', Some ''suite two'', ''/tmp/7/artifacts/e2e/junit_a.xml'')
     \<in> set (walk_origins spaced_fromfile spaced_walk) \<and>
   None \<notin> set (map (\<lambda>orig. fst (snd orig)) (walk_origins spaced_fromfile spaced_walk))"
proof -
  have "(''e2e'', Some ''test x'', ''/tmp/7/artifacts/e2e/junit_a.xml'')
     \<in> set (walk_origins spaced_fromfile spaced_walk) \<and>
   (''e2e'', Some ''suite two'', ''/tmp/7/artifacts/e2e/junit_a.xml'')
     \<in> set (walk_origins spaced_fromfile spaced_walk)"
    by (simp add: walk_origins_def file_origins_def spaced_walk_def spaced_fromfile_def
        sublist_code os_path_join_def suffix_to_prefix failing_def basename_def dirname_def
        rfind_def rstrip_def Let_def)
  then show ?thesis
    using verbose_names_replace_spaces [OF spaced_run] spaced_run by simp
qed

section \<open>Properties of the downloads\<close>

text \<open>
  Claim C8: in either pass a download whose destination exists is stored under the name
  with \<open>_1\<close>, \<open>_2\<close>, \<open>\<dots>\<close> before the extension, so that the objects of one destination
  all reach the disk and no file is overwritten.  The log pass, \<open>_download_logs\<close>, has no
  search for a free name.  When two objects have the same step and file name, the second
  \<open>open(file, "xb")\<close> raises \<open>FileExistsError\<close>: the pass ends there, with one file in the
  tree and no suffixed name.  The same happens for a single object when the tree already
  holds the file that an earlier run stored; the directories of that run are accepted.
\<close>

theorem log_pass_collision_raises:
  "download_logs False ''/tmp/7''
     [(''logs/job/7/artifacts/safe/step1/finished.json'', ''one''),
      (''logs/job/7/artifacts/safe/nested/step1/finished.json'', ''two'')]
     (Some ''job'') (Some ''7'') (Some ''safe'') (Some '''') [(''/tmp/7'', Dir)] =
   (Inl FileExistsError,
    [(''/tmp/7/logs/step1/finished.json'', File ''one''), (''/tmp/7/logs/step1'', Dir),
     (''/tmp/7/logs'', Dir), (''/tmp/7'', Dir)]) \<and>
   download_logs False ''/tmp/7''
     [(''logs/job/7/artifacts/safe/step1/finished.json'', ''new'')]
     (Some ''job'') (Some ''7'') (Some ''safe'') (Some '''')
     [(''/tmp/7/logs/step1/finished.json'', File ''old''), (''/tmp/7/logs/step1'', Dir),
      (''/tmp/7/logs'', Dir), (''/tmp/7'', Dir)] =
   (Inl FileExistsError,
    [(''/tmp/7/logs/step1/finished.json'', File ''old''), (''/tmp/7/logs/step1'', Dir),
     (''/tmp/7/logs'', Dir), (''/tmp/7'', Dir)])"
  by code_simp

text \<open>
  The report pass, \<open>_download_junit\<close>, has the search: three reports of one destination are
  stored under the plain name, then \<open>_1\<close>, then \<open>_2\<close>, and a report that meets the file of
  an earlier run is stored beside it.
\<close>

lemma report_pass_collision_suffixed:
  "download_junit False ''/tmp/7''
     [(''logs/job/7/artifacts/safe/step1/x/junit_op.xml'', ''a''),
      (''logs/job/7/artifacts/safe/step1/y/junit_op.xml'', ''b''),
      (''logs/job/7/artifacts/safe/step1/z/junit_op.xml'', ''c'')]
     (Some ''job'') (Some ''7'') (Some ''safe'') (Some '''') [(''/tmp/7'', Dir)] =
   (Inr ''/tmp/7/artifacts'',
    [(''/tmp/7/artifacts/step1/junit_op_2.xml'', File ''c''),
     (''/tmp/7/artifacts/step1/junit_op_1.xml'', File ''b''),
     (''/tmp/7/artifacts/step1/junit_op.xml'', File ''a''),
     (''/tmp/7/artifacts/step1'', Dir), (''/tmp/7/artifacts'', Dir), (''/tmp/7'', Dir)])"
  by code_simp

lemma report_pass_second_run_suffixed:
  "download_junit False ''/tmp/7''
     [(''logs/job/7/artifacts/safe/step1/x/junit_op.xml'', ''new'')]
     (Some ''job'') (Some ''7'') (Some ''safe'') (Some '''')
     [(''/tmp/7/artifacts/step1/junit_op.xml'', File ''old''),
      (''/tmp/7/artifacts/step1'', Dir), (''/tmp/7/artifacts'', Dir), (''/tmp/7'', Dir)] =
   (Inr ''/tmp/7/artifacts'',
    [(''/tmp/7/artifacts/step1/junit_op_1.xml'', File ''new''),
     (''/tmp/7/artifacts/step1/junit_op.xml'', File ''old''),
     (''/tmp/7/artifacts/step1'', Dir), (''/tmp/7/artifacts'', Dir), (''/tmp/7'', Dir)])"
  by code_simp

text \<open>
  The resolution of paths is exercised where the object names or the build id are
  unusual.  An empty step segment stores the log directly in the log directory; a build id
  with a slash asks \<open>os.mkdir\<close> for a directory whose parent is missing; and a step
  directory that is a file lets the download fail with \<open>NotADirectoryError\<close>.
\<close>

lemma empty_step_segment_stored_in_logs:
  "download_logs False ''/tmp/7''
     [(''logs/job/7/artifacts/safe//finished.json'', ''one'')]
     (Some ''job'') (Some ''7'') (Some ''safe'') (Some '''') [(''/tmp/7'', Dir)] =
   (Inr ''/tmp/7/logs'',
    [(''/tmp/7/logs/finished.json'', File ''one''), (''/tmp/7/logs'', Dir), (''/tmp/7'', Dir)])"
  by code_simp

lemma build_id_with_slash_raises:
  "get_download_path (Some ''vx/y'') [(''/tmp'', Dir)] = (Inl FileNotFoundError, [(''/tmp'', Dir)])"
  by code_simp

lemma step_directory_is_a_file:
  "download_logs False ''/tmp/7''
     [(''logs/job/7/artifacts/safe/step1/finished.json'', ''one'')]
     (Some ''job'') (Some ''7'') (Some ''safe'') (Some '''')
     [(''/tmp/7/logs/step1'', File ''x''), (''/tmp/7/logs'', Dir), (''/tmp/7'', Dir)] =
   (Inl NotADirectoryError,
    [(''/tmp/7/logs/step1'', File ''x''), (''/tmp/7/logs'', Dir), (''/tmp/7'', Dir)])"
  by code_simp

end
